theory Spec2Isabelle
  imports Complex_Main
begin

section \<open>Python values, exceptions and containers\<close>

text \<open>
  Exceptions of the Python source are values: every function that can raise returns
  \<open>error + 'a\<close>, with \<open>Inl\<close> for the exception. Floating-point numbers are
  modelled by the reals.
\<close>

datatype error =
    ValueError string
  | KeyError string
  | IndexError
  | AttributeError string
  | TypeError string

text \<open>\<open>warnings.warn("Missing expected keys: {}".format(missing_keys))\<close>\<close>

datatype warning = MissingExpectedKeys "string list"

definition bind_err :: "error + 'a \<Rightarrow> ('a \<Rightarrow> error + 'b) \<Rightarrow> error + 'b" where
  "bind_err m f = (case m of Inl e \<Rightarrow> Inl e | Inr x \<Rightarrow> f x)"

text \<open>A \<open>for\<close> loop whose body can raise: the first exception ends the loop.\<close>

fun fold_err :: "('a \<Rightarrow> 's \<Rightarrow> error + 's) \<Rightarrow> 'a list \<Rightarrow> 's \<Rightarrow> error + 's" where
  "fold_err f [] s = Inr s"
| "fold_err f (x # xs) s = (case f x s of Inl e \<Rightarrow> Inl e | Inr s' \<Rightarrow> fold_err f xs s')"

text \<open>\<open>xs[i]\<close> for a non-negative index: out of range raises IndexError.\<close>

definition nth_err :: "'a list \<Rightarrow> nat \<Rightarrow> error + 'a" where
  "nth_err xs i = (if i < length xs then Inr (xs ! i) else Inl IndexError)"

text \<open>\<open>d[k]\<close> on a dict kept as an association list in insertion order.\<close>

definition dict_get :: "(string \<times> 'v) list \<Rightarrow> string \<Rightarrow> error + 'v" where
  "dict_get d k = (case map_of d k of None \<Rightarrow> Inl (KeyError k) | Some v \<Rightarrow> Inr v)"

text \<open>
  A call that passes arguments by keyword to a function without \<open>**kwargs\<close>: the first
  keyword that is not a parameter of the function raises TypeError, before the body runs.
\<close>

definition check_keywords :: "string list \<Rightarrow> string list \<Rightarrow> error + unit" where
  "check_keywords params keywords =
     (case filter (\<lambda>k. k \<notin> set params) keywords of
        [] \<Rightarrow> Inr ()
      | k # _ \<Rightarrow> Inl (TypeError (''got an unexpected keyword argument '' @ k)))"

text \<open>
  \<open>collections.defaultdict(list)\<close>, kept in insertion order: \<open>d[k].append(v)\<close> creates
  the key at the end when it is absent; reading \<open>d[k]\<close> creates it as well.
\<close>

fun dd_append :: "string \<Rightarrow> 'a \<Rightarrow> (string \<times> 'a list) list \<Rightarrow> (string \<times> 'a list) list" where
  "dd_append k v [] = [(k, [v])]"
| "dd_append k v ((k', vs) # d) =
     (if k = k' then (k', vs @ [v]) # d else (k', vs) # dd_append k v d)"

fun dd_getitem :: "string \<Rightarrow> (string \<times> 'a list) list \<Rightarrow> 'a list \<times> (string \<times> 'a list) list" where
  "dd_getitem k [] = ([], [(k, [])])"
| "dd_getitem k ((k', vs) # d) =
     (if k = k' then (vs, (k', vs) # d)
      else (case dd_getitem k d of (r, d') \<Rightarrow> (r, (k', vs) # d')))"

text \<open>The list stored under a key, empty when the key is absent (a read without effect).\<close>

definition dd_lookup :: "(string \<times> 'a list) list \<Rightarrow> string \<Rightarrow> 'a list" where
  "dd_lookup d k = (case map_of d k of None \<Rightarrow> [] | Some vs \<Rightarrow> vs)"

text \<open>
  The values a trajectory holds: a scalar (a reward), a one-dimensional array (an
  observation, an action, an activation) or any other object (for example a nested dict).
\<close>

datatype val = Num real | Vec "real list" | Obj string

text \<open>\<open>a + b\<close> with NumPy broadcasting of scalars and of arrays of length one.\<close>

fun py_add :: "val \<Rightarrow> val \<Rightarrow> error + val" where
  "py_add (Num a) (Num b) = Inr (Num (a + b))"
| "py_add (Num a) (Vec ys) = Inr (Vec (map (\<lambda>y. a + y) ys))"
| "py_add (Vec xs) (Num b) = Inr (Vec (map (\<lambda>x. x + b) xs))"
| "py_add (Vec xs) (Vec ys) =
     (if length xs = length ys then Inr (Vec (map2 (+) xs ys))
      else if length xs = 1 then Inr (Vec (map (\<lambda>y. hd xs + y) ys))
      else if length ys = 1 then Inr (Vec (map (\<lambda>x. x + hd ys) xs))
      else Inl (ValueError ''operands could not be broadcast together''))"
| "py_add _ _ = Inl (TypeError ''unsupported operand type(s) for +'')"

text \<open>The builtin \<open>sum(xs)\<close>: a left fold of \<open>+\<close> that starts at the integer 0.\<close>

fun py_sum_from :: "val \<Rightarrow> val list \<Rightarrow> error + val" where
  "py_sum_from acc [] = Inr acc"
| "py_sum_from acc (x # xs) =
     (case py_add acc x of Inl e \<Rightarrow> Inl e | Inr acc' \<Rightarrow> py_sum_from acc' xs)"

definition py_sum :: "val list \<Rightarrow> error + val" where
  "py_sum xs = py_sum_from (Num 0) xs"

section \<open>common/utils.py: \<open>_filter_dict\<close>\<close>

text \<open>
  The binary methods of Python's builtin \<open>set\<close> that take an iterable, by attribute name;
  a set is a duplicate-free list here. Any other name is not an attribute of \<open>set\<close>;
  in particular \<open>set\<close> has no method called \<open>intersect\<close>.
\<close>

definition set_getattr :: "string \<Rightarrow> (string list \<Rightarrow> string list \<Rightarrow> string list) option" where
  "set_getattr name =
     (if name = ''intersection'' then Some (\<lambda>a b. filter (\<lambda>k. k \<in> set b) a)
      else if name = ''difference'' then Some (\<lambda>a b. filter (\<lambda>k. k \<notin> set b) a)
      else if name = ''union'' then Some (\<lambda>a b. remdups (a @ b))
      else if name = ''symmetric_difference'' then
        Some (\<lambda>a b. filter (\<lambda>k. k \<notin> set b) a @ filter (\<lambda>k. k \<notin> set a) (remdups b))
      else None)"

definition set_method :: "string \<Rightarrow> error + (string list \<Rightarrow> string list \<Rightarrow> string list)" where
  "set_method name =
     (case set_getattr name of None \<Rightarrow> Inl (AttributeError name) | Some m \<Rightarrow> Inr m)"

text \<open>\<open>{k: d[k] for k in present_keys}\<close>\<close>

fun dict_comprehension :: "(string \<times> 'v) list \<Rightarrow> string list \<Rightarrow> error + (string \<times> 'v) list" where
  "dict_comprehension d [] = Inr []"
| "dict_comprehension d (k # ks) =
     bind_err (dict_get d k) (\<lambda>v.
     bind_err (dict_comprehension d ks) (\<lambda>res. Inr ((k, v) # res)))"

text \<open>
  \<open>_filter_dict(d, keys)\<close> returns the filtered dict; the warnings it emits are returned
  beside it. The test \<open>missing_keys is not None\<close> of the source holds for every set, so
  the warning is emitted on every call that gets that far.
\<close>

definition filter_dict ::
  "(string \<times> 'v) list \<Rightarrow> string list option \<Rightarrow> error + ((string \<times> 'v) list \<times> warning list)" where
  "filter_dict d keys =
     (case keys of
        None \<Rightarrow> Inr (d, [])
      | Some ks \<Rightarrow>
          (let keys = remdups ks in
           bind_err (set_method ''intersect'') (\<lambda>intersect.
           let present_keys = intersect keys (map fst d) in
           bind_err (set_method ''difference'') (\<lambda>difference.
           let missing_keys = difference keys (map fst d) in
           bind_err (dict_comprehension d present_keys) (\<lambda>res.
           Inr (res, [MissingExpectedKeys missing_keys]))))))"

section \<open>common/utils.py: \<open>make_env\<close>\<close>

text \<open>
  \<open>def make_env(env_name, seed, i, out_dir, our_idx=None, pre_wrapper=None,
  post_wrapper=None)\<close>. The body builds a gym environment from collaborators;
  \<open>body\<close> is what it returns.
\<close>

definition make_env_params :: "string list" where
  "make_env_params =
     [''env_name'', ''seed'', ''i'', ''out_dir'', ''our_idx'', ''pre_wrapper'', ''post_wrapper'']"

definition make_env :: "string list \<Rightarrow> error + unit \<Rightarrow> error + unit" where
  "make_env keywords body = bind_err (check_keywords make_env_params keywords) (\<lambda>_. body)"

section \<open>common/utils.py: \<open>TrajectoryRecorder\<close>\<close>

text \<open>
  Batches are indexed \<open>[agent][lane]\<close>; \<open>infos\<close> is indexed \<open>[lane][agent]\<close> and holds
  one dict per agent. \<open>traj_dicts[dict_idx][env_idx]\<close> is the accumulator of one lane,
  \<open>full_traj_dicts[dict_idx]\<close> the store of one recorded agent: per field, the list of
  consolidated episodes (each the array of its per-step values).
\<close>

type_synonym batch = "val list list"
type_synonym infos = "(string \<times> val) list list list"
type_synonym step_result = "batch \<times> batch \<times> bool list \<times> infos"

record recorder =
  tr_num_agents :: nat
  tr_num_envs :: nat
  agent_indices :: "nat list"
  env_keys :: "string list option"
  info_keys :: "string list option"
  traj_dicts :: "(string \<times> val list) list list list"
  full_traj_dicts :: "(string \<times> val list list) list list"
  prev_obs :: "batch option"
  actions :: "batch option"
  emitted :: "warning list"

text \<open>
  The \<open>agent_indices\<close> argument of the constructor: \<open>None\<close>, an int or anything else.
  Only the first two set the attribute; for a list the attribute is never assigned and
  the comprehension over \<open>self.agent_indices\<close> raises.
\<close>

datatype agent_sel = NoIndices | IntIndex nat | ListIndices "nat list"

definition TrajectoryRecorder_init ::
  "nat \<Rightarrow> nat \<Rightarrow> agent_sel \<Rightarrow> string list option \<Rightarrow> string list option \<Rightarrow> error + recorder" where
  "TrajectoryRecorder_init n_agents n_envs sel ekeys ikeys =
     bind_err (case sel of
                 NoIndices \<Rightarrow> Inr [0..<n_agents]
               | IntIndex i \<Rightarrow> Inr [i]
               | ListIndices _ \<Rightarrow> Inl (AttributeError ''agent_indices'')) (\<lambda>idxs.
     Inr \<lparr>tr_num_agents = n_agents, tr_num_envs = n_envs, agent_indices = idxs,
          env_keys = ekeys, info_keys = ikeys,
          traj_dicts = map (\<lambda>_. replicate n_envs []) idxs,
          full_traj_dicts = map (\<lambda>_. []) idxs,
          prev_obs = None, actions = None, emitted = []\<rparr>)"

text \<open>\<open>val[agent_idx][env_idx]\<close>, where \<open>val\<close> may still be \<open>None\<close>.\<close>

definition cell :: "batch option \<Rightarrow> nat \<Rightarrow> nat \<Rightarrow> error + val" where
  "cell b agent_idx env_idx =
     (case b of
        None \<Rightarrow> Inl (TypeError ''NoneType object is not subscriptable'')
      | Some rows \<Rightarrow> bind_err (nth_err rows agent_idx) (\<lambda>row. nth_err row env_idx))"

text \<open>\<open>for key, val in env_data.items(): agent_dicts[env_idx][key].append(val[agent_idx][env_idx])\<close>\<close>

fun append_env_data ::
  "(string \<times> batch option) list \<Rightarrow> nat \<Rightarrow> nat \<Rightarrow> (string \<times> val list) list
     \<Rightarrow> error + (string \<times> val list) list" where
  "append_env_data [] agent_idx env_idx acc = Inr acc"
| "append_env_data ((key, b) # rest) agent_idx env_idx acc =
     bind_err (cell b agent_idx env_idx) (\<lambda>v.
     append_env_data rest agent_idx env_idx (dd_append key v acc))"

text \<open>\<open>for key, val in info_dict.items(): agent_dicts[env_idx][key].append(val)\<close>\<close>

fun append_items :: "(string \<times> 'a) list \<Rightarrow> (string \<times> 'a list) list \<Rightarrow> (string \<times> 'a list) list" where
  "append_items [] acc = acc"
| "append_items ((key, v) # rest) acc = append_items rest (dd_append key v acc)"

text \<open>
  The body of the loop of \<open>record_timestep_data\<close> for one pair \<open>(dict_idx, env_idx)\<close>, in
  its two halves. First the values of this timestep are appended to the accumulator of
  the lane: the environment fields, then the (filtered) info dict of the agent.
\<close>

definition append_timestep ::
  "(string \<times> batch option) list \<Rightarrow> infos \<Rightarrow> string list option \<Rightarrow> nat \<Rightarrow> nat
     \<Rightarrow> (string \<times> val list) list \<Rightarrow> error + ((string \<times> val list) list \<times> warning list)" where
  "append_timestep env_data infos' ikeys agent_idx env_idx acc0 =
     bind_err (append_env_data env_data agent_idx env_idx acc0) (\<lambda>acc1.
     bind_err (nth_err infos' env_idx) (\<lambda>lane_infos.
     bind_err (nth_err lane_infos agent_idx) (\<lambda>info_dict.
     bind_err (filter_dict info_dict ikeys) (\<lambda>(info_dict', ws).
     Inr (append_items info_dict' acc1, ws)))))"

text \<open>
  Then, when the lane is done: \<open>ep_ret = sum(agent_dicts[env_idx]['rewards'])\<close> (a read
  of a \<open>defaultdict\<close>), \<open>np.array([ep_ret])\<close> goes to \<open>'episode_returns'\<close>, and every
  field of the accumulator goes to the store as one array.
\<close>

definition end_episode ::
  "(string \<times> val list) list \<Rightarrow> (string \<times> val list list) list
     \<Rightarrow> error + (string \<times> val list list) list" where
  "end_episode acc full0 =
     (case dd_getitem ''rewards'' acc of (rews, acc') \<Rightarrow>
        bind_err (py_sum rews) (\<lambda>ep_ret.
        Inr (append_items acc' (dd_append ''episode_returns'' [ep_ret] full0))))"

definition record_lane ::
  "(string \<times> batch option) list \<Rightarrow> bool list \<Rightarrow> infos \<Rightarrow> nat \<times> nat \<Rightarrow> recorder
     \<Rightarrow> error + recorder" where
  "record_lane env_data dones' infos' p s =
     (case p of (dict_idx, env_idx) \<Rightarrow>
        bind_err (nth_err (traj_dicts s) dict_idx) (\<lambda>agent_dicts.
        bind_err (nth_err (agent_indices s) dict_idx) (\<lambda>agent_idx.
        bind_err (nth_err agent_dicts env_idx) (\<lambda>acc0.
        bind_err (append_timestep env_data infos' (info_keys s) agent_idx env_idx acc0)
          (\<lambda>(acc, ws).
        bind_err (nth_err dones' env_idx) (\<lambda>done.
        if done then
          bind_err (nth_err (full_traj_dicts s) dict_idx) (\<lambda>full0.
          bind_err (end_episode acc full0) (\<lambda>full1.
          Inr (s\<lparr>traj_dicts := (traj_dicts s)[dict_idx := agent_dicts[env_idx := []]],
                 full_traj_dicts := (full_traj_dicts s)[dict_idx := full1],
                 emitted := emitted s @ ws\<rparr>)))
        else
          Inr (s\<lparr>traj_dicts := (traj_dicts s)[dict_idx := agent_dicts[env_idx := acc]],
                 emitted := emitted s @ ws\<rparr>)))))))"

definition record_timestep_data ::
  "recorder \<Rightarrow> batch option \<Rightarrow> batch option \<Rightarrow> batch \<Rightarrow> bool list \<Rightarrow> infos \<Rightarrow> error + recorder" where
  "record_timestep_data s prev_obs' actions' rewards dones infos =
     bind_err (filter_dict [(''observations'', prev_obs'), (''actions'', actions'),
                            (''rewards'', Some rewards)] (env_keys s)) (\<lambda>(env_data, ws).
     fold_err (record_lane env_data dones infos)
       (List.product [0..<length (traj_dicts s)] [0..<tr_num_envs s])
       (s\<lparr>emitted := emitted s @ ws\<rparr>))"

text \<open>
  The wrapped environment is a collaborator: \<open>step_async\<close> returns, beside the new state,
  the actions handed to \<open>self.venv.step_async\<close>; \<open>step_wait\<close> and \<open>reset\<close> take what
  \<open>self.venv.step_wait()\<close> and \<open>self.venv.reset()\<close> returned.
\<close>

definition TrajectoryRecorder_step_async :: "batch \<Rightarrow> recorder \<Rightarrow> recorder \<times> batch" where
  "TrajectoryRecorder_step_async acts s = (s\<lparr>actions := Some acts\<rparr>, acts)"

definition TrajectoryRecorder_step_wait :: "step_result \<Rightarrow> recorder \<Rightarrow> error + (recorder \<times> step_result)" where
  "TrajectoryRecorder_step_wait r s =
     (case r of (observations, rewards, dones, infos) \<Rightarrow>
        bind_err (record_timestep_data s (prev_obs s) (actions s) rewards dones infos) (\<lambda>s'.
        Inr (s'\<lparr>prev_obs := Some observations\<rparr>, (observations, rewards, dones, infos))))"

definition TrajectoryRecorder_reset :: "batch \<Rightarrow> recorder \<Rightarrow> recorder \<times> batch" where
  "TrajectoryRecorder_reset observations s = (s\<lparr>prev_obs := Some observations\<rparr>, observations)"

section \<open>train.py: \<open>EmbedVictimWrapper\<close>\<close>

text \<open>
  The victim is a policy model holding a TensorFlow session, or \<open>None\<close> for the
  scripted policies (\<open>ConstantPolicy\<close> and \<open>RandomPolicy\<close> pass \<open>sess=None\<close>).
  \<open>venv_closed\<close> is the state of the wrapped pipeline (the curried environment), which
  \<open>super().close()\<close> closes.
\<close>

record tf_session =
  sess_closed :: bool

record policy_model =
  sess :: "tf_session option"

record embed_victim_wrapper =
  victim :: policy_model
  agent_idx :: nat
  venv_closed :: bool

definition EmbedVictimWrapper_init :: "policy_model \<Rightarrow> nat \<Rightarrow> embed_victim_wrapper" where
  "EmbedVictimWrapper_init victim' victim_index' =
     \<lparr>victim = victim', agent_idx = victim_index', venv_closed = False\<rparr>"

text \<open>
  \<open>def __init__(self, multi_env, victim, victim_index)\<close>: the constructor called with
  the given keywords.
\<close>

definition EmbedVictimWrapper_params :: "string list" where
  "EmbedVictimWrapper_params = [''multi_env'', ''victim'', ''victim_index'']"

definition EmbedVictimWrapper_new ::
  "string list \<Rightarrow> policy_model \<Rightarrow> nat \<Rightarrow> error + embed_victim_wrapper" where
  "EmbedVictimWrapper_new keywords victim' victim_index' =
     bind_err (check_keywords EmbedVictimWrapper_params keywords) (\<lambda>_.
     Inr (EmbedVictimWrapper_init victim' victim_index'))"

text \<open>\<open>self.victim.sess.close()\<close>, then \<open>super().close()\<close>.\<close>

definition EmbedVictimWrapper_close :: "embed_victim_wrapper \<Rightarrow> error + embed_victim_wrapper" where
  "EmbedVictimWrapper_close w =
     (case sess (victim w) of
        None \<Rightarrow> Inl (AttributeError ''close'')
      | Some se \<Rightarrow>
          Inr (w\<lparr>victim := (victim w)\<lparr>sess := Some (se\<lparr>sess_closed := True\<rparr>)\<rparr>,
                 venv_closed := True\<rparr>))"

section \<open>lookback.py: \<open>LookbackRewardVecWrapper\<close>\<close>

subsection \<open>Data\<close>

type_synonym vec = "real list"

text \<open>The recurrent state of a policy, indexed \<open>[lane, layer, unit]\<close>.\<close>

type_synonym rstate = "real list list list"

text \<open>A simulator state is opaque to the wrapper: it is read from one environment and
  written to another.\<close>

type_synonym sim_state = "real list"

text \<open>
  The transparent data of one agent in an info dict: \<open>info['ff']\<close> is a dict whose entry
  \<open>'policy'\<close> lists the activations of each layer, indexed by lane; \<open>info['obs']\<close> is
  indexed by lane. A key that is absent is \<open>None\<close> here and raises KeyError when read.
\<close>

record agent_info =
  ff :: "(string \<times> vec list list) list option"
  obs :: "vec list option"

text \<open>\<open>data_dict\<close> of a slot; \<open>info\<close> is a \<open>defaultdict(dict)\<close> keyed by lane, each entry
  a dict keyed by agent index.\<close>

record lb_data =
  state :: "rstate option"
  action :: "vec list option"
  reward :: "real list"
  info :: "nat \<Rightarrow> (nat \<rightharpoonup> agent_info)"

text \<open>
  The environments are collaborators. What the wrapper does to one is the list of calls
  it issues on it, in order:
  \<open>curry.set_obs(obs[, env_idx])\<close>,
  \<open>env_method('set_state', state, indices=i[, sim_data=full], forward=False)\<close>,
  \<open>env_method('set_radius', r, indices=i)\<close>, \<open>set_debug_file(debug_files[k])\<close>,
  \<open>step_async(action)\<close>, \<open>step_wait()\<close> and \<open>reset()\<close>.
\<close>

datatype call =
    SetObs "vec list" "nat option"
  | SetState nat sim_state "sim_state option" bool
  | SetRadius nat real
  | SetDebugFile nat
  | StepAsync "vec list option"
  | StepWait
  | Reset

text \<open>
  A \<open>LookbackTuple\<close>. \<open>curry\<close> and \<open>venv\<close> are two handles on one shadow pipeline;
  \<open>slot_id\<close> stands for the identity of these objects and \<open>calls\<close> for what has been
  done to them.
\<close>

record slot =
  slot_id :: nat
  calls :: "call list"
  data :: lb_data

text \<open>\<open>self._policy\<close>: \<open>predict(obs, state, mask)\<close> returns the actions and the next
  recurrent state; \<open>ob_dim\<close> is the first dimension of its observation space.\<close>

record policy =
  predict :: "vec list option \<Rightarrow> rstate option \<Rightarrow> bool list option \<Rightarrow> vec list \<times> rstate option"
  ob_dim :: nat

text \<open>What the live environment answers when asked: the simulator state, the full
  simulator data and the radius of each lane, and the observation the curried victim
  holds (\<open>get_curry_venv().get_obs()\<close>).\<close>

record live_view =
  get_state :: "nat \<Rightarrow> sim_state"
  get_full_state :: "nat \<Rightarrow> sim_state"
  get_radius :: "nat \<Rightarrow> real"
  get_obs :: "vec list"

text \<open>The wrapper. \<open>self_x\<close> is the attribute \<open>self._x\<close> of the source; \<open>live_calls\<close> are
  the calls issued on the wrapped (live) environment. \<open>ep_lens\<close> is a NumPy array of
  64-bit integers, kept here as integers without a bound.\<close>

record lookback =
  num_envs :: nat
  lookback_num :: int
  lookback_space :: nat
  transparent_params :: "string list"
  victim_index :: nat
  self_policy :: policy
  self_action :: "vec list option"
  self_obs :: "vec list option"
  self_state :: "rstate option"
  self_new_lb_state :: "rstate option"
  self_dones :: "bool list"
  ep_lens :: "int list"
  lb_dicts :: "slot list"
  debug_files :: "nat list"
  live_calls :: "call list"

text \<open>The result of \<open>step_wait()\<close> of a flattened environment: observations, rewards,
  dones and infos, each indexed by lane.\<close>

type_synonym lb_step_result = "vec list \<times> real list \<times> bool list \<times> (nat \<rightharpoonup> agent_info) list"

subsection \<open>NumPy arithmetic\<close>

fun map_err :: "('a \<Rightarrow> error + 'b) \<Rightarrow> 'a list \<Rightarrow> error + 'b list" where
  "map_err f [] = Inr []"
| "map_err f (x # xs) =
     (case f x of
        Inl e \<Rightarrow> Inl e
      | Inr y \<Rightarrow> (case map_err f xs of Inl e \<Rightarrow> Inl e | Inr ys \<Rightarrow> Inr (y # ys)))"

text \<open>\<open>a - b\<close> on one-dimensional arrays.\<close>

definition np_sub :: "vec \<Rightarrow> vec \<Rightarrow> error + vec" where
  "np_sub a b =
     (if length a = length b then Inr (map2 (-) a b)
      else if length a = 1 then Inr (map (\<lambda>y. hd a - y) b)
      else if length b = 1 then Inr (map (\<lambda>x. x - hd b) a)
      else Inl (ValueError ''operands could not be broadcast together''))"

text \<open>\<open>np.linalg.norm(v)\<close> of a one-dimensional array: the Euclidean norm.\<close>

definition linalg_norm :: "vec \<Rightarrow> real" where
  "linalg_norm v = sqrt (sum_list (map (\<lambda>x. \<bar>x\<bar> ^ 2) v))"

text \<open>\<open>xs[:n]\<close> for an integer \<open>n\<close>; a negative \<open>n\<close> counts from the end.\<close>

definition py_take :: "int \<Rightarrow> 'a list \<Rightarrow> 'a list" where
  "py_take n xs = (if 0 \<le> n then take (nat n) xs else take (length xs - nat (- n)) xs)"

text \<open>\<open>ep_lens *= ~np.array(dones)\<close>: the lanes that are done are multiplied by 0, the
  others by 1; an array of length one is broadcast.\<close>

definition mul_not_dones :: "int list \<Rightarrow> bool list \<Rightarrow> error + int list" where
  "mul_not_dones lens ds =
     (if length ds = length lens then Inr (map2 (\<lambda>l d. l * (if d then 0 else 1)) lens ds)
      else if length ds = 1 then Inr (map (\<lambda>l. l * (if hd ds then 0 else 1)) lens)
      else Inl (ValueError ''operands could not be broadcast together''))"

text \<open>\<open>m[k]\<close> on a dict keyed by agent index.\<close>

definition agent_get :: "(nat \<rightharpoonup> 'v) \<Rightarrow> nat \<Rightarrow> error + 'v" where
  "agent_get m k = (case m k of None \<Rightarrow> Inl (KeyError ''victim_index'') | Some v \<Rightarrow> Inr v)"

text \<open>\<open>victim_info['ff']['policy'][0][env_idx]\<close> and \<open>victim_info['obs'][env_idx]\<close>\<close>

definition ff_signal :: "agent_info \<Rightarrow> nat \<Rightarrow> error + vec" where
  "ff_signal vi env_idx =
     (case ff vi of
        None \<Rightarrow> Inl (KeyError ''ff'')
      | Some d \<Rightarrow>
          bind_err (dict_get d ''policy'') (\<lambda>layers.
          bind_err (nth_err layers 0) (\<lambda>layer0. nth_err layer0 env_idx)))"

definition obs_signal :: "agent_info \<Rightarrow> nat \<Rightarrow> error + vec" where
  "obs_signal vi env_idx =
     (case obs vi of None \<Rightarrow> Inl (KeyError ''obs'') | Some a \<Rightarrow> nth_err a env_idx)"

subsection \<open>Construction\<close>

text \<open>The values of the \<open>lookback_params\<close> dict.\<close>

datatype param = PInt int | PStr string

definition new_slot :: "nat \<Rightarrow> nat \<Rightarrow> slot" where
  "new_slot n_envs i =
     \<lparr>slot_id = i, calls = [],
      data = \<lparr>state = None, action = None, reward = replicate n_envs 0,
              info = (\<lambda>_. Map.empty)\<rparr>\<rparr>"

text \<open>
  The collaborators of the construction that are not part of these files:
  \<open>make_dummy_vec_multi_env\<close> and \<open>make_subproc_vec_multi_env\<close>, which receive the
  environment constructors (here what each constructor returns when it is called) and
  may call them, \<open>load_policy\<close> for the victim of a shadow pipeline, and the body of
  \<open>make_env\<close>. Each of them may raise.
\<close>

record collaborators =
  make_env_body :: "error + unit"
  make_dummy_vec_multi_env :: "(error + unit) list \<Rightarrow> error + unit"
  make_subproc_vec_multi_env :: "(error + unit) list \<Rightarrow> error + unit"
  load_victim :: "error + policy_model"

text \<open>
  \<open>env_fn(i)\<close> of \<open>_create_lb_dicts\<close>:
  \<open>make_env(env_name, 0, i, out_dir='data/extraneous/', pre_wrapper=GymCompeteToOurs,
  resettable=True)\<close>.
\<close>

definition env_fn :: "collaborators \<Rightarrow> nat \<Rightarrow> error + unit" where
  "env_fn co i = make_env [''out_dir'', ''pre_wrapper'', ''resettable''] (make_env_body co)"

text \<open>
  \<open>_create_lb_dicts\<close>: one slot per iteration of \<open>for _ in range(self.lookback_num)\<close>.
  An iteration makes the vectorized environment, loads the victim, embeds it with
  \<open>EmbedVictimWrapper(multi_env=multi_venv, victim=victim, victim_index=victim_index,
  transparent_params=self.transparent_params)\<close> and appends the slot.
\<close>

fun create_loop ::
  "collaborators \<Rightarrow> bool \<Rightarrow> nat \<Rightarrow> nat \<Rightarrow> nat list \<Rightarrow> slot list \<Rightarrow> error + slot list" where
  "create_loop co use_dummy n_envs vidx [] lb_dicts' = Inr lb_dicts'"
| "create_loop co use_dummy n_envs vidx (i # rest) lb_dicts' =
     (let make_vec_env = (if use_dummy then make_dummy_vec_multi_env co
                          else make_subproc_vec_multi_env co)
      in bind_err (make_vec_env (map (env_fn co) [0..<n_envs])) (\<lambda>multi_venv.
         bind_err (load_victim co) (\<lambda>victim'.
         bind_err (EmbedVictimWrapper_new
                     [''multi_env'', ''victim'', ''victim_index'', ''transparent_params'']
                     victim' vidx) (\<lambda>multi_venv'.
         create_loop co use_dummy n_envs vidx rest (lb_dicts' @ [new_slot n_envs i])))))"

definition create_lb_dicts ::
  "collaborators \<Rightarrow> bool \<Rightarrow> int \<Rightarrow> nat \<Rightarrow> nat \<Rightarrow> error + slot list" where
  "create_lb_dicts co use_dummy lookback_num' n_envs vidx =
     create_loop co use_dummy n_envs vidx [0..<nat lookback_num'] []"

text \<open>
  \<open>__init__\<close>. \<open>load_policy'\<close> stands for \<open>load_policy\<close> applied to the type and the path
  of \<open>lookback_params\<close>. \<open>transparent_params\<close> is \<open>None\<close> or a collection of names.
  \<open>debug_files\<close> has \<open>lookback_num + 1\<close> entries, of which the first goes to the live
  environment.
\<close>

definition LookbackRewardVecWrapper_init ::
  "collaborators \<Rightarrow> (param \<Rightarrow> param \<Rightarrow> error + policy) \<Rightarrow> nat
     \<Rightarrow> (string \<times> param) list \<Rightarrow> bool \<Rightarrow> nat \<Rightarrow> string list option \<Rightarrow> nat
     \<Rightarrow> error + lookback" where
  "LookbackRewardVecWrapper_init co load_policy' n_envs lookback_params use_dummy victim_index'
       transparent_params' lookback_space' =
     bind_err (dict_get lookback_params ''num_lb'') (\<lambda>num_lb.
     (case transparent_params' of
        None \<Rightarrow> Inl (ValueError ''LookbackRewardVecWrapper assumes transparent policies and venvs.'')
      | Some tp \<Rightarrow>
          bind_err (dict_get lookback_params ''type'') (\<lambda>ty.
          bind_err (dict_get lookback_params ''path'') (\<lambda>path.
          bind_err (load_policy' ty path) (\<lambda>pol.
          (case num_lb of
             PStr _ \<Rightarrow> Inl (TypeError ''str object cannot be interpreted as an integer'')
           | PInt k \<Rightarrow>
               bind_err (create_lb_dicts co use_dummy k n_envs victim_index') (\<lambda>lbs.
               let files = [0..<nat (k + 1)] in
               bind_err (nth_err files 0) (\<lambda>f0.
               Inr \<lparr>num_envs = n_envs, lookback_num = k, lookback_space = lookback_space',
                    transparent_params = tp, victim_index = victim_index',
                    self_policy = pol, self_action = None, self_obs = None,
                    self_state = None, self_new_lb_state = None,
                    self_dones = replicate n_envs False,
                    ep_lens = replicate n_envs 0,
                    lb_dicts = lbs, debug_files = files,
                    live_calls = [SetDebugFile f0]\<rparr>))))))))"

subsection \<open>Stepping\<close>

definition add_calls :: "call list \<Rightarrow> slot \<Rightarrow> slot" where
  "add_calls cs lb = lb\<lparr>calls := calls lb @ cs\<rparr>"

text \<open>\<open>_get_truncated_obs\<close>: \<open>obs[:, :n]\<close>, with \<open>n\<close> the size of the policy's observation
  space (both branches of the source slice in the same way).\<close>

definition get_truncated_obs :: "lookback \<Rightarrow> vec list \<Rightarrow> vec list" where
  "get_truncated_obs s observations = map (take (ob_dim (self_policy s))) observations"

text \<open>The loop of \<open>step_async\<close> over \<open>enumerate(self.lb_dicts[1:])\<close>.\<close>

definition step_older :: "nat list \<Rightarrow> nat \<times> slot \<Rightarrow> error + slot" where
  "step_older files p =
     (case p of (i, lb_dict) \<Rightarrow>
        bind_err (nth_err files (i + 2)) (\<lambda>f.
        Inr (add_calls [SetDebugFile f, StepAsync (action (data lb_dict))] lb_dict)))"

definition Lookback_step_async :: "live_view \<Rightarrow> vec list \<Rightarrow> lookback \<Rightarrow> error + lookback" where
  "Lookback_step_async live acts s =
     (let current_states = map (get_state live) [0..<num_envs s] in
      if lb_dicts s = [] then Inl IndexError
      else
        (let rotated = last (lb_dicts s) # butlast (lb_dicts s);
             new_baseline_dict = hd rotated;
             curry_obs = get_obs live;
             nb1 = add_calls (SetObs curry_obs None #
                     map (\<lambda>env_idx. SetState env_idx (current_states ! env_idx) None False)
                       [0..<num_envs s]) new_baseline_dict
         in bind_err (map_err (step_older (debug_files s)) (List.enumerate 0 (tl rotated))) (\<lambda>older.
            (case predict (self_policy s) (self_obs s) (self_new_lb_state s) (Some (self_dones s)) of
               (lb_action, new_state) \<Rightarrow>
                 bind_err (nth_err (debug_files s) 1) (\<lambda>f1.
                 let nb2 = add_calls [SetDebugFile f1, StepAsync (Some lb_action)]
                             (nb1\<lparr>data := (data nb1)\<lparr>state := new_state\<rparr>\<rparr>)
                 in Inr (s\<lparr>lb_dicts := nb2 # older,
                           self_new_lb_state := new_state,
                           live_calls := live_calls s @ [StepAsync (Some acts)],
                           ep_lens := map (\<lambda>l. l + 1) (ep_lens s)\<rparr>))))))"

text \<open>\<open>_process_own_obs\<close>\<close>

definition process_own_obs :: "vec list \<Rightarrow> lookback \<Rightarrow> lookback" where
  "process_own_obs observations s =
     (let ob = get_truncated_obs s observations in
      case predict (self_policy s) (Some ob) (self_state s) (Some (self_dones s)) of
        (a, st) \<Rightarrow> s\<lparr>self_obs := Some ob, self_action := Some a, self_state := st\<rparr>)"

text \<open>\<open>for env_idx in range(self.num_envs): data['info'][env_idx].update(lb_info[env_idx])\<close>\<close>

fun update_info ::
  "(nat \<rightharpoonup> agent_info) list \<Rightarrow> nat list \<Rightarrow> (nat \<Rightarrow> (nat \<rightharpoonup> agent_info))
     \<Rightarrow> error + (nat \<Rightarrow> (nat \<rightharpoonup> agent_info))" where
  "update_info lb_info [] d = Inr d"
| "update_info lb_info (env_idx # rest) d =
     (case nth_err lb_info env_idx of
        Inl e \<Rightarrow> Inl e
      | Inr upd \<Rightarrow> update_info lb_info rest (d(env_idx := d env_idx ++ upd)))"

text \<open>The body of the loop of \<open>_process_lb_data\<close> for one slot and its step result.\<close>

definition process_slot :: "lookback \<Rightarrow> slot \<times> lb_step_result \<Rightarrow> error + slot" where
  "process_slot s p =
     (case p of (lb_dict, (lb_obs, lb_reward, _, lb_info)) \<Rightarrow>
        (let lb_obs' = get_truncated_obs s lb_obs;
             input_state = state (data lb_dict)
         in case predict (self_policy s) (Some lb_obs') input_state (Some (self_dones s)) of
              (lb_action, lb_state) \<Rightarrow>
                bind_err (update_info lb_info [0..<num_envs s] (info (data lb_dict))) (\<lambda>d.
                Inr (lb_dict\<lparr>data := \<lparr>state = lb_state, action = Some lb_action,
                                       reward = lb_reward, info = d\<rparr>\<rparr>))))"

definition process_lb_data :: "lb_step_result list \<Rightarrow> lookback \<Rightarrow> error + lookback" where
  "process_lb_data lb_data s =
     bind_err (map_err (process_slot s) (zip (lb_dicts s) lb_data)) (\<lambda>lbs.
     Inr (s\<lparr>lb_dicts := lbs\<rparr>))"

text \<open>
  \<open>_reset_state_data(initial_observations, env_idx)\<close>. With \<open>env_idx = None\<close> (only from
  \<open>reset\<close>) every lane of every slot is reset; with a lane, the entries of that lane.
  \<open>env_method(name, indices=env_idx)\<close> answers with one element for a single lane, so the
  loop over \<open>enumerate(envs_iter)\<close> reads element 0 for it.
\<close>

definition set_lane :: "live_view \<Rightarrow> nat \<Rightarrow> call list" where
  "set_lane live env_to_set =
     [SetRadius env_to_set (get_radius live env_to_set),
      SetState env_to_set (get_state live env_to_set) (Some (get_full_state live env_to_set)) False]"

definition reset_slot ::
  "live_view \<Rightarrow> nat \<Rightarrow> vec list \<Rightarrow> rstate option \<Rightarrow> nat option \<Rightarrow> slot \<Rightarrow> error + slot" where
  "reset_slot live n_envs action' state' env_idx lb_dict =
     (let curry_obs = get_obs live in
      case env_idx of
        None \<Rightarrow>
          Inr (add_calls (SetObs curry_obs None # concat (map (set_lane live) [0..<n_envs]))
                 (add_calls [Reset]
                    (lb_dict\<lparr>data := \<lparr>state = state', action = Some action',
                                        reward = map (\<lambda>r. r * 0) (reward (data lb_dict)),
                                        info = (\<lambda>_. Map.empty)\<rparr>\<rparr>)))
      | Some i \<Rightarrow>
          bind_err (nth_err action' i) (\<lambda>a.
          bind_err
            (case action (data lb_dict) of
               None \<Rightarrow> Inl (TypeError ''NoneType object does not support item assignment'')
             | Some old_action \<Rightarrow>
                 if i < length old_action then Inr (old_action[i := a]) else Inl IndexError)
            (\<lambda>new_action.
          bind_err
            (case state' of
               None \<Rightarrow> Inr None
             | Some st \<Rightarrow>
                 bind_err (nth_err st i) (\<lambda>lane_state.
                 (case state (data lb_dict) of
                    None \<Rightarrow> Inl (TypeError ''NoneType object does not support item assignment'')
                  | Some old_state \<Rightarrow>
                      if i < length old_state then Inr (Some (old_state[i := lane_state]))
                      else Inl IndexError)))
            (\<lambda>new_state.
          bind_err (nth_err (reward (data lb_dict)) i) (\<lambda>r.
          Inr (add_calls (SetObs curry_obs (Some i) # set_lane live i)
                 (lb_dict\<lparr>data := (data lb_dict)
                            \<lparr>action := Some new_action, state := new_state,
                             reward := (reward (data lb_dict))[i := r * 0]\<rparr>\<rparr>)))))))"

definition reset_state_data :: "live_view \<Rightarrow> vec list \<Rightarrow> nat option \<Rightarrow> lookback \<Rightarrow> error + lookback" where
  "reset_state_data live initial_observations env_idx s =
     (let truncated_obs = get_truncated_obs s initial_observations in
      case predict (self_policy s) (Some truncated_obs) None None of
        (action', state') \<Rightarrow>
          bind_err (map_err (reset_slot live (num_envs s) action' state' env_idx) (lb_dicts s))
            (\<lambda>lbs. Inr (s\<lparr>lb_dicts := lbs\<rparr>)))"

text \<open>
  The inner loop of \<open>step_wait\<close> over \<open>valid_lb_dicts\<close>: \<open>env_diff_reward\<close> grows by the norm
  of the difference of the \<open>'ff'\<close> signals when \<open>'ff'\<close> is among the transparent
  parameters; the difference of the \<open>'obs'\<close> signals is computed and dropped.
\<close>

fun diff_loop :: "string list \<Rightarrow> agent_info \<Rightarrow> nat \<Rightarrow> nat \<Rightarrow> slot list \<Rightarrow> real \<Rightarrow> error + real" where
  "diff_loop tp victim_info env_idx vidx [] env_diff_reward = Inr env_diff_reward"
| "diff_loop tp victim_info env_idx vidx (lb_dict # rest) env_diff_reward =
     bind_err (agent_get (info (data lb_dict) env_idx) vidx) (\<lambda>lb_victim_info.
     bind_err
       (if ''ff'' \<in> set tp then
          bind_err (ff_signal victim_info env_idx) (\<lambda>a.
          bind_err (ff_signal lb_victim_info env_idx) (\<lambda>b.
          bind_err (np_sub a b) (\<lambda>diff_ff.
          Inr (env_diff_reward + linalg_norm diff_ff))))
        else Inr env_diff_reward) (\<lambda>env_diff_reward'.
     bind_err
       (if ''obs'' \<in> set tp then
          bind_err (obs_signal victim_info env_idx) (\<lambda>a.
          bind_err (obs_signal lb_victim_info env_idx) (\<lambda>b.
          bind_err (np_sub a b) (\<lambda>diff_obs. Inr ())))
        else Inr ()) (\<lambda>_.
     diff_loop tp victim_info env_idx vidx rest env_diff_reward')))"

text \<open>The body of the loop of \<open>step_wait\<close> over the lanes; the state of the loop is the
  wrapper and the \<open>rewards\<close> array.\<close>

definition lane_step ::
  "live_view \<Rightarrow> vec list \<Rightarrow> (nat \<rightharpoonup> agent_info) list \<Rightarrow> nat \<Rightarrow> lookback \<times> real list
     \<Rightarrow> error + (lookback \<times> real list)" where
  "lane_step live observations infos' env_idx p =
     (case p of (s, rewards) \<Rightarrow>
        bind_err (nth_err (self_dones s) env_idx) (\<lambda>done.
        bind_err (if done then reset_state_data live observations (Some env_idx) s else Inr s) (\<lambda>s1.
        bind_err (nth_err (ep_lens s1) env_idx) (\<lambda>ep_len.
        let valid_lb_dicts = py_take ep_len (lb_dicts s1) in
        bind_err (nth_err infos' env_idx) (\<lambda>lane_info.
        bind_err (agent_get lane_info (victim_index s1)) (\<lambda>victim_info.
        bind_err (diff_loop (transparent_params s1) victim_info env_idx (victim_index s1)
                    valid_lb_dicts 0) (\<lambda>env_diff_reward.
        bind_err (nth_err rewards env_idx) (\<lambda>r.
        Inr (s1, rewards[env_idx := r + 0.05 * env_diff_reward])))))))))"

text \<open>
  \<open>step_wait\<close>. \<open>live_result\<close> is what \<open>self.venv.step_wait()\<close> returns, \<open>live\<close> answers the
  queries on the live environment after that step, and \<open>lb_wait\<close> gives what
  \<open>lb_dict.venv.step_wait()\<close> returns for each shadow pipeline.
\<close>

definition Lookback_step_wait ::
  "live_view \<Rightarrow> lb_step_result \<Rightarrow> (nat \<Rightarrow> lb_step_result) \<Rightarrow> lookback
     \<Rightarrow> error + (lookback \<times> lb_step_result)" where
  "Lookback_step_wait live live_result lb_wait s =
     (case live_result of (observations, rewards, dones', infos') \<Rightarrow>
        (let s1 = process_own_obs observations
                    (s\<lparr>self_dones := dones', live_calls := live_calls s @ [StepWait]\<rparr>);
             lb_data = map (\<lambda>lb_dict. lb_wait (slot_id lb_dict)) (lb_dicts s1);
             s2 = s1\<lparr>lb_dicts := map (add_calls [StepWait]) (lb_dicts s1)\<rparr>
         in bind_err (process_lb_data lb_data s2) (\<lambda>s3.
            bind_err (mul_not_dones (ep_lens s3) (self_dones s3)) (\<lambda>lens.
            bind_err (fold_err (lane_step live observations infos') [0..<num_envs s3]
                        (s3\<lparr>ep_lens := lens\<rparr>, rewards)) (\<lambda>(s4, rewards').
            Inr (s4, (observations, rewards', self_dones s4, infos')))))))"

text \<open>\<open>reset\<close>; \<open>observations\<close> is what \<open>self.venv.reset()\<close> returns.\<close>

definition Lookback_reset :: "live_view \<Rightarrow> vec list \<Rightarrow> lookback \<Rightarrow> error + (lookback \<times> vec list)" where
  "Lookback_reset live observations s =
     (let s1 = process_own_obs observations (s\<lparr>live_calls := live_calls s @ [Reset]\<rparr>) in
      bind_err (reset_state_data live observations None s1) (\<lambda>s2. Inr (s2, observations)))"

subsection \<open>Sequences of calls\<close>

text \<open>The calls a training loop makes on the wrapper, each with what the collaborators
  answer during the call; a sequence of calls ends at the first exception.\<close>

datatype op =
    CallReset live_view "vec list"
  | CallStepAsync live_view "vec list"
  | CallStepWait live_view lb_step_result "nat \<Rightarrow> lb_step_result"

fun exec :: "op \<Rightarrow> lookback \<Rightarrow> error + lookback" where
  "exec (CallReset live observations) s =
     (case Lookback_reset live observations s of Inl e \<Rightarrow> Inl e | Inr (s', _) \<Rightarrow> Inr s')"
| "exec (CallStepAsync live acts) s = Lookback_step_async live acts s"
| "exec (CallStepWait live live_result lb_wait) s =
     (case Lookback_step_wait live live_result lb_wait s of
        Inl e \<Rightarrow> Inl e
      | Inr (s', _) \<Rightarrow> Inr s')"

text \<open>The identities of the slots of the pool, by lookback offset (the position in
  \<open>lb_dicts\<close>).\<close>

definition slot_ids :: "lookback \<Rightarrow> nat list" where
  "slot_ids s = map slot_id (lb_dicts s)"

subsection \<open>Example inputs\<close>

text \<open>
  Concrete collaborators for one lane, with the victim at agent index 1: a stateless
  policy, a live environment and an info dict whose \<open>'ff'\<close> activation of the first layer
  is \<open>[a, 0]\<close> and whose \<open>'obs'\<close> entry is \<open>[a]\<close>.
\<close>

definition example_policy :: policy where
  "example_policy = \<lparr>predict = (\<lambda>ob st mask. ([[0]], None)), ob_dim = 1\<rparr>"

definition example_live :: live_view where
  "example_live =
     \<lparr>get_state = (\<lambda>_. [0]), get_full_state = (\<lambda>_. [0]), get_radius = (\<lambda>_. 1), get_obs = [[0]]\<rparr>"

definition example_info :: "real \<Rightarrow> (nat \<rightharpoonup> agent_info)" where
  "example_info a = [1 \<mapsto> \<lparr>ff = Some [(''policy'', [[[a, 0]]])], obs = Some [[a]]\<rparr>]"

text \<open>
  Collaborators of the construction that all return: the dummy vectorized environment
  calls every environment constructor in its own process, the subprocess one hands them
  to its workers, and the victim that is loaded holds a session.
\<close>

definition example_collaborators :: collaborators where
  "example_collaborators =
     \<lparr>make_env_body = Inr (),
      make_dummy_vec_multi_env = (\<lambda>env_fns. bind_err (map_err (\<lambda>r. r) env_fns) (\<lambda>_. Inr ())),
      make_subproc_vec_multi_env = (\<lambda>env_fns. Inr ()),
      load_victim = Inr \<lparr>sess = Some \<lparr>sess_closed = False\<rparr>\<rparr>\<rparr>"

text \<open>The wrapper constructed with \<open>lookback_params = {'num_lb': k, 'type': 'zoo',
  'path': '1'}\<close> around one lane.\<close>

definition example_params :: "int \<Rightarrow> (string \<times> param) list" where
  "example_params k = [(''num_lb'', PInt k), (''type'', PStr ''zoo''), (''path'', PStr ''1'')]"

definition example_init :: "int \<Rightarrow> bool \<Rightarrow> string list option \<Rightarrow> error + lookback" where
  "example_init k use_dummy tp =
     LookbackRewardVecWrapper_init example_collaborators (\<lambda>_ _. Inr example_policy) 1
       (example_params k) use_dummy 1 tp 1"

text \<open>The calls of one cycle after a reset: the live victim's activation is \<open>[a, 0]\<close>,
  that of every shadow victim \<open>[0, 0]\<close>, the live reward is \<open>r\<close> and the lane is done or
  not.\<close>

definition example_reset :: op where
  "example_reset = CallReset example_live [[0]]"

definition example_step_async :: op where
  "example_step_async = CallStepAsync example_live [[0]]"

definition example_step_wait :: "real \<Rightarrow> real \<Rightarrow> bool \<Rightarrow> op" where
  "example_step_wait a r d =
     CallStepWait example_live ([[0]], [r], [d], [example_info a])
       (\<lambda>_. ([[0]], [0], [False], [example_info 0]))"

definition example_cycle :: "real \<Rightarrow> real \<Rightarrow> bool \<Rightarrow> op list" where
  "example_cycle a r d = [example_reset, example_step_async, example_step_wait a r d]"

text \<open>A program that constructs the wrapper and makes the calls, up to the first
  exception.\<close>

definition example_run :: "int \<Rightarrow> bool \<Rightarrow> string list option \<Rightarrow> op list \<Rightarrow> error + lookback" where
  "example_run k use_dummy tp ops = bind_err (example_init k use_dummy tp) (fold_err exec ops)"

text \<open>
  For the recorder: one call of \<open>step_async\<close> followed by \<open>step_wait\<close>, and an episode of
  three steps of one agent in one lane with the rewards 1, 2 and 3, recorded by a recorder
  with the default arguments after \<open>reset\<close>.
\<close>

definition record_step :: "batch \<times> step_result \<Rightarrow> recorder \<Rightarrow> error + recorder" where
  "record_step p s =
     bind_err (TrajectoryRecorder_step_wait (snd p) (fst (TrajectoryRecorder_step_async (fst p) s)))
       (\<lambda>r. Inr (fst r))"

definition example_recorder :: "error + recorder" where
  "example_recorder =
     bind_err (TrajectoryRecorder_init 1 1 NoIndices None None)
       (\<lambda>s. Inr (fst (TrajectoryRecorder_reset [[Vec [0]]] s)))"

definition example_episode :: "(batch \<times> step_result) list" where
  "example_episode =
     [([[Vec [10]]], ([[Vec [1]]], [[Num 1]], [False], [[[]]])),
      ([[Vec [20]]], ([[Vec [2]]], [[Num 2]], [False], [[[]]])),
      ([[Vec [30]]], ([[Vec [3]]], [[Num 3]], [True], [[[]]]))]"

section \<open>Lemmas about errors and containers\<close>

lemma bind_err_simps [simp]:
  "bind_err (Inl e) f = Inl e"
  "bind_err (Inr x) f = f x"
  by (simp_all add: bind_err_def)

lemma bind_err_eq_Inr: "bind_err m f = Inr y \<longleftrightarrow> (\<exists>x. m = Inr x \<and> f x = Inr y)"
  by (cases m) simp_all

lemma nth_err_eq_Inr: "nth_err xs i = Inr x \<longleftrightarrow> i < length xs \<and> x = xs ! i"
  by (auto simp: nth_err_def)

lemma fold_err_append:
  "fold_err f (xs @ ys) s = bind_err (fold_err f xs s) (fold_err f ys)"
  by (induction xs arbitrary: s) (auto split: sum.splits)

lemma fold_err_Cons_Inr:
  "fold_err f (x # xs) s = Inr s' \<longleftrightarrow> (\<exists>s1. f x s = Inr s1 \<and> fold_err f xs s1 = Inr s')"
  by (cases "f x s") auto

lemma map_err_all2:
  "map_err f xs = Inr ys \<Longrightarrow> (\<And>x y. x \<in> set xs \<Longrightarrow> f x = Inr y \<Longrightarrow> P x y) \<Longrightarrow> list_all2 P xs ys"
proof (induction xs arbitrary: ys)
  case Nil
  then show ?case by simp
next
  case (Cons x xs)
  then show ?case by (auto split: sum.splits)
qed

lemma all2_map_eq:
  "list_all2 (\<lambda>x y. g y = f x) xs ys \<Longrightarrow> map g ys = map f xs"
  by (induction rule: list_all2_induct) auto

lemma map_err_length: "map_err f xs = Inr ys \<Longrightarrow> length ys = length xs"
  by (induction xs arbitrary: ys) (auto split: sum.split_asm)

lemma map_err_nth:
  "map_err f xs = Inr ys \<Longrightarrow> i < length xs \<Longrightarrow> f (xs ! i) = Inr (ys ! i)"
proof (induction xs arbitrary: ys i)
  case Nil
  then show ?case by simp
next
  case (Cons x xs)
  then show ?case by (cases i) (auto split: sum.split_asm)
qed

lemma upt_mem: "e < n \<Longrightarrow> e \<in> set [0..<n]"
  by simp

section \<open>Properties of the recorder\<close>

subsection \<open>Filtering by keys\<close>

lemma set_method_intersect: "set_method ''intersect'' = Inl (AttributeError ''intersect'')"
  by (simp add: set_method_def set_getattr_def)

lemma filter_dict_None: "filter_dict d None = Inr (d, [])"
  by (simp add: filter_dict_def)

text \<open>Whatever the dict and the requested keys, filtering by keys raises: the attribute
  lookup \<open>keys.intersect\<close> fails before any key is compared.\<close>

lemma filter_dict_Some: "filter_dict d (Some ks) = Inl (AttributeError ''intersect'')"
  by (simp add: filter_dict_def set_method_intersect)

text \<open>
  C6. The claim: when a requested info key is absent from the observed data, recording
  emits a warning and continues with the fields that are present, without raising.
  The code does not do so: a recorder of one agent and one lane that requests the info
  key \<open>'ff'\<close>, given an info dict that only has \<open>'obs'\<close>, raises AttributeError from
  \<open>_filter_dict\<close>; no warning is emitted and nothing is recorded.
\<close>

theorem record_missing_info_key_raises:
  "bind_err (TrajectoryRecorder_init 1 1 NoIndices None (Some [''ff'']))
     (\<lambda>s. record_timestep_data s (Some [[Vec [0]]]) (Some [[Vec [1]]]) [[Num 1]] [False]
            [[[(''obs'', Vec [0])]]]) = Inl (AttributeError ''intersect'')"
  by (simp add: TrajectoryRecorder_init_def record_timestep_data_def filter_dict_None
      filter_dict_Some record_lane_def append_timestep_def nth_err_def cell_def)

subsection \<open>Passing through\<close>

text \<open>What the recorder hands on is what it was given: the actions go to the wrapped
  environment unchanged, and what \<open>reset\<close> and \<open>step_wait\<close> return, when they return, is
  what the wrapped environment returned.\<close>

lemma step_async_forwards: "snd (TrajectoryRecorder_step_async acts s) = acts"
  by (simp add: TrajectoryRecorder_step_async_def)

lemma reset_returns: "snd (TrajectoryRecorder_reset observations s) = observations"
  by (simp add: TrajectoryRecorder_reset_def)

lemma step_wait_returns:
  "TrajectoryRecorder_step_wait r s = Inr (s', out) \<Longrightarrow> out = r"
  by (auto simp: TrajectoryRecorder_step_wait_def bind_err_eq_Inr split: prod.splits)

text \<open>
  C8. The claim: the recorder is a transparent passthrough; for every sequence of calls
  of \<open>reset\<close>, \<open>step_async\<close> and \<open>step_wait\<close> it returns what the wrapped environment
  returns. The code does not do so for a recorder configured with a subset of the
  environment fields: after \<open>reset\<close> and \<open>step_async\<close>, \<open>step_wait\<close> raises AttributeError
  although the wrapped environment returned a step result.
\<close>

theorem step_wait_with_env_keys_raises:
  "bind_err (TrajectoryRecorder_init 1 1 NoIndices (Some [''rewards'']) None)
     (\<lambda>s0. case TrajectoryRecorder_reset [[Vec [0]]] s0 of (s1, _) \<Rightarrow>
            (case TrajectoryRecorder_step_async [[Vec [1]]] s1 of (s2, _) \<Rightarrow>
               TrajectoryRecorder_step_wait ([[Vec [2]]], [[Num 1]], [False], [[[]]]) s2))
   = Inl (AttributeError ''intersect'')"
  by (simp add: TrajectoryRecorder_init_def TrajectoryRecorder_reset_def
      TrajectoryRecorder_step_async_def TrajectoryRecorder_step_wait_def
      record_timestep_data_def filter_dict_Some)

subsection \<open>Accumulators and stores\<close>

lemma key_in_dict: "(k, v) \<in> set d \<Longrightarrow> k \<in> fst ` set d"
  by (rule image_eqI [of _ _ "(k, v)"]) simp_all

lemma dd_append_map_fst:
  "map fst (dd_append k v d) = (if k \<in> set (map fst d) then map fst d else map fst d @ [k])"
  by (induction d) (auto dest: key_in_dict)

lemma dd_append_keys: "set (map fst (dd_append k v d)) = insert k (set (map fst d))"
  by (auto simp: dd_append_map_fst)

lemma dd_append_distinct: "distinct (map fst d) \<Longrightarrow> distinct (map fst (dd_append k v d))"
  by (simp add: dd_append_map_fst)

lemma dd_lookup_append:
  "dd_lookup (dd_append k v d) k' = (if k' = k then dd_lookup d k @ [v] else dd_lookup d k')"
  by (induction d) (auto simp: dd_lookup_def)

lemma dd_getitem_fst: "fst (dd_getitem k d) = dd_lookup d k"
  by (induction d) (auto simp: dd_lookup_def split: prod.splits)

lemma dd_getitem_lookup: "dd_lookup (snd (dd_getitem k d)) k' = dd_lookup d k'"
  by (induction d) (auto simp: dd_lookup_def split: prod.splits)

lemma dd_getitem_map_fst:
  "map fst (snd (dd_getitem k d)) = (if k \<in> set (map fst d) then map fst d else map fst d @ [k])"
  by (induction d) (auto simp: case_prod_beta dest: key_in_dict)

lemma append_items_lookup:
  "dd_lookup (append_items items d) k = dd_lookup d k @ map snd (filter (\<lambda>p. fst p = k) items)"
  by (induction items arbitrary: d) (auto simp: dd_lookup_append)

lemma append_items_keys:
  "set (map fst (append_items items d)) = set (map fst items) \<union> set (map fst d)"
proof (induction items arbitrary: d)
  case Nil
  then show ?case by simp
next
  case (Cons p items)
  obtain k v where p: "p = (k, v)" by (cases p)
  have "set (map fst (append_items (p # items) d))
      = set (map fst items) \<union> set (map fst (dd_append k v d))"
    using Cons.IH [of "dd_append k v d"] by (simp add: p)
  also have "\<dots> = set (map fst (p # items)) \<union> set (map fst d)"
    unfolding dd_append_keys by (auto simp: p)
  finally show ?case .
qed

lemma append_items_distinct:
  "distinct (map fst d) \<Longrightarrow> distinct (map fst (append_items items d))"
  by (induction items arbitrary: d) (auto simp: dd_append_distinct)

lemma append_env_data_distinct:
  "append_env_data env_data a e acc0 = Inr acc \<Longrightarrow> distinct (map fst acc0) \<Longrightarrow> distinct (map fst acc)"
proof (induction env_data arbitrary: acc0)
  case Nil
  then show ?case by simp
next
  case (Cons p rest)
  obtain key b where p: "p = (key, b)" by (cases p)
  from Cons.prems p obtain v where
    r: "append_env_data rest a e (dd_append key v acc0) = Inr acc"
    by (auto simp: bind_err_eq_Inr)
  from Cons.IH [OF r] Cons.prems(2) show ?case by (simp add: dd_append_distinct)
qed

lemma append_env_data_lookup:
  "append_env_data env_data a e acc0 = Inr acc \<Longrightarrow>
     \<exists>vs. map_err (\<lambda>p. cell (snd p) a e) (filter (\<lambda>p. fst p = k) env_data) = Inr vs
        \<and> dd_lookup acc k = dd_lookup acc0 k @ vs"
proof (induction env_data arbitrary: acc0)
  case Nil
  then show ?case by simp
next
  case (Cons p rest)
  obtain key b where p: "p = (key, b)" by (cases p)
  from Cons.prems p obtain v where
    c: "cell b a e = Inr v" and r: "append_env_data rest a e (dd_append key v acc0) = Inr acc"
    by (auto simp: bind_err_eq_Inr)
  from Cons.IH [OF r] obtain vs where
    m: "map_err (\<lambda>p. cell (snd p) a e) (filter (\<lambda>p. fst p = k) rest) = Inr vs" and
    l: "dd_lookup acc k = dd_lookup (dd_append key v acc0) k @ vs"
    by blast
  show ?case
  proof (cases "key = k")
    case True
    with p c m l show ?thesis by (simp add: dd_lookup_append)
  next
    case False
    with p c m l show ?thesis by (simp add: dd_lookup_append)
  qed
qed

lemma filter_distinct_key:
  "distinct (map fst d) \<Longrightarrow>
     map snd (filter (\<lambda>p. fst p = k) d) = (if k \<in> set (map fst d) then [dd_lookup d k] else [])"
proof (induction d)
  case Nil
  then show ?case by simp
next
  case (Cons p d)
  obtain k' v where p: "p = (k', v)" by (cases p)
  show ?case
  proof (cases "k' = k")
    case True
    with Cons.prems p have "k \<notin> set (map fst d)" by simp
    then have "filter (\<lambda>p. fst p = k) d = []" by (auto simp: filter_empty_conv)
    with True p show ?thesis by (simp add: dd_lookup_def)
  next
    case False
    with Cons p show ?thesis by (auto simp: dd_lookup_def)
  qed
qed

lemma py_sum_from_Nums: "py_sum_from (Num a) (map Num rs) = Inr (Num (a + sum_list rs))"
  by (induction rs arbitrary: a) (simp_all add: add.assoc)

lemma py_sum_Nums: "py_sum (map Num rs) = Inr (Num (sum_list rs))"
  by (simp add: py_sum_def py_sum_from_Nums)

text \<open>The end of an episode, seen through the lists stored under each field.\<close>

lemma end_episode_Inr:
  assumes "end_episode acc full0 = Inr full1" and "distinct (map fst acc)"
  shows "\<exists>ret. py_sum (dd_lookup acc ''rewards'') = Inr ret \<and>
           (\<forall>k. dd_lookup full1 k =
                  dd_lookup full0 k
                  @ (if k = ''episode_returns'' then [[ret]] else [])
                  @ (if k \<in> insert ''rewards'' (set (map fst acc)) then [dd_lookup acc k] else []))"
proof -
  let ?acc' = "snd (dd_getitem ''rewards'' acc)"
  from assms(1) obtain ret where
    s: "py_sum (dd_lookup acc ''rewards'') = Inr ret" and
    f: "full1 = append_items ?acc' (dd_append ''episode_returns'' [ret] full0)"
    by (auto simp: end_episode_def bind_err_eq_Inr case_prod_beta dd_getitem_fst)
  have d: "distinct (map fst ?acc')" using assms(2) by (auto simp: dd_getitem_map_fst)
  have k: "set (map fst ?acc') = insert ''rewards'' (set (map fst acc))"
    by (auto simp: dd_getitem_map_fst)
  have "dd_lookup full1 k =
                  dd_lookup full0 k
                  @ (if k = ''episode_returns'' then [[ret]] else [])
                  @ (if k \<in> insert ''rewards'' (set (map fst acc)) then [dd_lookup acc k] else [])"
    for k
    unfolding f append_items_lookup filter_distinct_key [OF d] k dd_lookup_append dd_getitem_lookup
    by simp
  with s show ?thesis by blast
qed

lemma append_timestep_Inr:
  assumes "append_timestep env_data infos' ikeys a e acc0 = Inr (acc, ws)"
  shows "e < length infos' \<and> a < length (infos' ! e) \<and>
         (\<exists>items. filter_dict (infos' ! e ! a) ikeys = Inr (items, ws) \<and>
            (\<forall>k. \<exists>vs. map_err (\<lambda>p. cell (snd p) a e) (filter (\<lambda>p. fst p = k) env_data) = Inr vs
                \<and> dd_lookup acc k = dd_lookup acc0 k @ vs @ map snd (filter (\<lambda>p. fst p = k) items)))
       \<and> (distinct (map fst acc0) \<longrightarrow> distinct (map fst acc))"
proof -
  from assms obtain acc1 items where
    e: "append_env_data env_data a e acc0 = Inr acc1" and
    b: "e < length infos'" "a < length (infos' ! e)" and
    f: "filter_dict (infos' ! e ! a) ikeys = Inr (items, ws)" and
    r: "acc = append_items items acc1"
    by (auto simp: append_timestep_def bind_err_eq_Inr nth_err_eq_Inr)
  have "\<exists>vs. map_err (\<lambda>p. cell (snd p) a e) (filter (\<lambda>p. fst p = k) env_data) = Inr vs
                \<and> dd_lookup acc k = dd_lookup acc0 k @ vs @ map snd (filter (\<lambda>p. fst p = k) items)"
    for k
    using append_env_data_lookup [OF e, of k] by (auto simp: r append_items_lookup)
  moreover have "distinct (map fst acc0) \<longrightarrow> distinct (map fst acc)"
    using append_env_data_distinct [OF e] by (simp add: r append_items_distinct)
  ultimately show ?thesis using b f by blast
qed

text \<open>With no key filter, the reward of the step is appended to the rewards of the lane,
  unless the info dict of the agent has an entry called \<open>'rewards'\<close> of its own.\<close>

lemma accumulated_rewards:
  assumes "append_timestep [(''observations'', po), (''actions'', ac), (''rewards'', Some rewards)]
             infos' None a e acc0 = Inr (acc, ws)"
    and "''rewards'' \<notin> set (map fst (infos' ! e ! a))"
  shows "a < length rewards \<and> e < length (rewards ! a)
       \<and> dd_lookup acc ''rewards'' = dd_lookup acc0 ''rewards'' @ [rewards ! a ! e]"
proof -
  from append_timestep_Inr [OF assms(1)] obtain items vs where
    f: "filter_dict (infos' ! e ! a) None = Inr (items, ws)" and
    m: "map_err (\<lambda>p. cell (snd p) a e)
          (filter (\<lambda>p. fst p = ''rewards'')
             [(''observations'', po), (''actions'', ac), (''rewards'', Some rewards)]) = Inr vs" and
    l: "dd_lookup acc ''rewards'' = dd_lookup acc0 ''rewards'' @ vs
          @ map snd (filter (\<lambda>p. fst p = ''rewards'') items)"
    by blast
  from f have "items = infos' ! e ! a" by (simp add: filter_dict_None)
  with assms(2) have "filter (\<lambda>p. fst p = ''rewards'') items = []"
    by (auto simp: filter_empty_conv dest: key_in_dict)
  moreover from m have "a < length rewards \<and> e < length (rewards ! a) \<and> vs = [rewards ! a ! e]"
    by (auto simp: cell_def bind_err_eq_Inr nth_err_eq_Inr split: sum.split_asm)
  ultimately show ?thesis using l by simp
qed

text \<open>
  The body of the loop for a lane that is done: the values accumulated for the lane,
  those of this step included, go to the store of the agent as one array per field, the
  sum of the accumulated rewards goes to \<open>'episode_returns'\<close>, and the accumulator of the
  lane is empty afterwards.
\<close>

lemma record_lane_done:
  assumes "record_lane env_data dones' infos' (d, e) s = Inr s'"
    and "e < length dones'" and "dones' ! e"
    and "distinct (map fst (traj_dicts s ! d ! e))"
  shows "\<exists>acc ws ret.
       append_timestep env_data infos' (info_keys s) (agent_indices s ! d) e
         (traj_dicts s ! d ! e) = Inr (acc, ws)
     \<and> py_sum (dd_lookup acc ''rewards'') = Inr ret
     \<and> (\<forall>rs. dd_lookup acc ''rewards'' = map Num rs \<longrightarrow> ret = Num (sum_list rs))
     \<and> (\<forall>k. dd_lookup (full_traj_dicts s' ! d) k =
              dd_lookup (full_traj_dicts s ! d) k
              @ (if k = ''episode_returns'' then [[ret]] else [])
              @ (if k \<in> insert ''rewards'' (set (map fst acc)) then [dd_lookup acc k] else []))
     \<and> traj_dicts s' ! d ! e = []"
proof -
  from assms(1,2,3) obtain acc ws full1 where
    b: "d < length (traj_dicts s)" "d < length (agent_indices s)" "e < length (traj_dicts s ! d)"
       "d < length (full_traj_dicts s)" and
    a: "append_timestep env_data infos' (info_keys s) (agent_indices s ! d) e
          (traj_dicts s ! d ! e) = Inr (acc, ws)" and
    f: "end_episode acc (full_traj_dicts s ! d) = Inr full1" and
    s': "s' = s\<lparr>traj_dicts := (traj_dicts s)[d := (traj_dicts s ! d)[e := []]],
                full_traj_dicts := (full_traj_dicts s)[d := full1],
                emitted := emitted s @ ws\<rparr>"
    by (auto simp: record_lane_def bind_err_eq_Inr nth_err_eq_Inr)
  from append_timestep_Inr [OF a] assms(4) have dist: "distinct (map fst acc)" by blast
  from end_episode_Inr [OF f dist] obtain ret where
    r: "py_sum (dd_lookup acc ''rewards'') = Inr ret" and
    l: "\<forall>k. dd_lookup full1 k =
              dd_lookup (full_traj_dicts s ! d) k
              @ (if k = ''episode_returns'' then [[ret]] else [])
              @ (if k \<in> insert ''rewards'' (set (map fst acc)) then [dd_lookup acc k] else [])"
    by blast
  have n: "\<forall>rs. dd_lookup acc ''rewards'' = map Num rs \<longrightarrow> ret = Num (sum_list rs)"
    using r by (auto simp: py_sum_Nums)
  have t: "traj_dicts s' ! d ! e = []" using b by (simp add: s')
  have fl: "full_traj_dicts s' ! d = full1" using b by (simp add: s')
  show ?thesis
    apply (rule exI [of _ acc])
    apply (rule exI [of _ ws])
    apply (rule exI [of _ ret])
    using a r n l t unfolding fl apply (intro conjI)
        apply assumption+
    done
qed

text \<open>What the body of the loop for one pair leaves alone: the configuration, the shape
  of the buffers, the accumulators of the other pairs; the stores only grow.\<close>

lemma record_lane_Inr:
  assumes "record_lane env_data dones' infos' (d, e) s = Inr s1"
  shows "d < length (traj_dicts s) \<and> d < length (agent_indices s)
       \<and> e < length (traj_dicts s ! d) \<and> e < length dones'
       \<and> (\<exists>acc ws. append_timestep env_data infos' (info_keys s) (agent_indices s ! d) e
                       (traj_dicts s ! d ! e) = Inr (acc, ws)
            \<and> (if dones' ! e
                then d < length (full_traj_dicts s) \<and>
                     (\<exists>full1. end_episode acc (full_traj_dicts s ! d) = Inr full1
                        \<and> s1 = s\<lparr>traj_dicts := (traj_dicts s)[d := (traj_dicts s ! d)[e := []]],
                                  full_traj_dicts := (full_traj_dicts s)[d := full1],
                                  emitted := emitted s @ ws\<rparr>)
                else s1 = s\<lparr>traj_dicts := (traj_dicts s)[d := (traj_dicts s ! d)[e := acc]],
                            emitted := emitted s @ ws\<rparr>))"
proof (cases "dones' ! e")
  case True
  with assms show ?thesis
    by (auto simp: record_lane_def bind_err_eq_Inr nth_err_eq_Inr)
next
  case False
  with assms show ?thesis
    by (auto simp: record_lane_def bind_err_eq_Inr nth_err_eq_Inr)
qed

lemma record_lane_frame:
  assumes "record_lane env_data dones' infos' q s = Inr s1"
  shows "agent_indices s1 = agent_indices s \<and> info_keys s1 = info_keys s
       \<and> length (traj_dicts s1) = length (traj_dicts s)
       \<and> length (full_traj_dicts s1) = length (full_traj_dicts s)
       \<and> (\<forall>d e. (d, e) \<noteq> q \<longrightarrow> traj_dicts s1 ! d ! e = traj_dicts s ! d ! e)
       \<and> (\<forall>d k. \<exists>ext. dd_lookup (full_traj_dicts s1 ! d) k = dd_lookup (full_traj_dicts s ! d) k @ ext)"
proof -
  obtain d' e' where q: "q = (d', e')" by (cases q)
  note r = record_lane_Inr [OF assms [unfolded q]]
  from r have b: "d' < length (traj_dicts s)" by blast
  have "\<exists>new. agent_indices s1 = agent_indices s \<and> info_keys s1 = info_keys s
       \<and> traj_dicts s1 = (traj_dicts s)[d' := (traj_dicts s ! d')[e' := new]]
       \<and> (full_traj_dicts s1 = full_traj_dicts s \<or>
           (\<exists>acc full1. end_episode acc (full_traj_dicts s ! d') = Inr full1
              \<and> full_traj_dicts s1 = (full_traj_dicts s)[d' := full1]
              \<and> d' < length (full_traj_dicts s)))"
  proof (cases "dones' ! e'")
    case True
    with r obtain acc full1 ws where
      "end_episode acc (full_traj_dicts s ! d') = Inr full1" "d' < length (full_traj_dicts s)"
      "s1 = s\<lparr>traj_dicts := (traj_dicts s)[d' := (traj_dicts s ! d')[e' := []]],
                full_traj_dicts := (full_traj_dicts s)[d' := full1],
                emitted := emitted s @ ws\<rparr>"
      by auto
    then show ?thesis by auto
  next
    case False
    with r obtain acc ws where
      "s1 = s\<lparr>traj_dicts := (traj_dicts s)[d' := (traj_dicts s ! d')[e' := acc]],
                emitted := emitted s @ ws\<rparr>"
      by auto
    then show ?thesis by auto
  qed
  then obtain new where
    c: "agent_indices s1 = agent_indices s" "info_keys s1 = info_keys s"
       "traj_dicts s1 = (traj_dicts s)[d' := (traj_dicts s ! d')[e' := new]]" and
    f: "full_traj_dicts s1 = full_traj_dicts s \<or>
        (\<exists>acc full1. end_episode acc (full_traj_dicts s ! d') = Inr full1
           \<and> full_traj_dicts s1 = (full_traj_dicts s)[d' := full1] \<and> d' < length (full_traj_dicts s))"
    by blast
  have tr: "traj_dicts s1 ! d ! e = traj_dicts s ! d ! e" if "(d, e) \<noteq> q" for d e
  proof (cases "d = d'")
    case True
    with that q have "e \<noteq> e'" by simp
    with True b show ?thesis by (simp add: c)
  next
    case False
    then show ?thesis by (simp add: c)
  qed
  have fl: "\<exists>ext. dd_lookup (full_traj_dicts s1 ! d) k = dd_lookup (full_traj_dicts s ! d) k @ ext"
    for d k
    using f
  proof
    assume "full_traj_dicts s1 = full_traj_dicts s"
    then show ?thesis by simp
  next
    assume "\<exists>acc full1. end_episode acc (full_traj_dicts s ! d') = Inr full1
           \<and> full_traj_dicts s1 = (full_traj_dicts s)[d' := full1] \<and> d' < length (full_traj_dicts s)"
    then obtain acc full1 where
      e: "end_episode acc (full_traj_dicts s ! d') = Inr full1" and
      u: "full_traj_dicts s1 = (full_traj_dicts s)[d' := full1]" and
      l: "d' < length (full_traj_dicts s)"
      by blast
    show ?thesis
    proof (cases "d = d'")
      case True
      from e obtain ret where
        "full1 = append_items (snd (dd_getitem ''rewards'' acc))
                  (dd_append ''episode_returns'' [ret] (full_traj_dicts s ! d'))"
        by (auto simp: end_episode_def bind_err_eq_Inr case_prod_beta)
      then have "\<exists>ext. dd_lookup full1 k = dd_lookup (full_traj_dicts s ! d') k @ ext"
        by (simp add: append_items_lookup dd_lookup_append)
      with True u l show ?thesis by simp
    next
      case False
      with u show ?thesis by simp
    qed
  qed
  have len: "length (full_traj_dicts s1) = length (full_traj_dicts s)"
    using f by auto
  from c tr fl len show ?thesis by simp
qed

lemma fold_record_lane_frame:
  assumes "fold_err (record_lane env_data dones' infos') qs s = Inr s1"
  shows "agent_indices s1 = agent_indices s \<and> info_keys s1 = info_keys s
       \<and> length (traj_dicts s1) = length (traj_dicts s)
       \<and> length (full_traj_dicts s1) = length (full_traj_dicts s)
       \<and> (\<forall>d e. (d, e) \<notin> set qs \<longrightarrow> traj_dicts s1 ! d ! e = traj_dicts s ! d ! e)
       \<and> (\<forall>d k. \<exists>ext. dd_lookup (full_traj_dicts s1 ! d) k = dd_lookup (full_traj_dicts s ! d) k @ ext)"
  using assms
proof (induction qs arbitrary: s)
  case Nil
  then show ?case by simp
next
  case (Cons q qs)
  from Cons.prems obtain s0 where
    a: "record_lane env_data dones' infos' q s = Inr s0" and
    b: "fold_err (record_lane env_data dones' infos') qs s0 = Inr s1"
    by (auto split: sum.split_asm)
  note f = record_lane_frame [OF a]
  note g = Cons.IH [OF b]
  have "\<exists>ext. dd_lookup (full_traj_dicts s1 ! d) k = dd_lookup (full_traj_dicts s ! d) k @ ext"
    for d k
  proof -
    from f obtain x where "dd_lookup (full_traj_dicts s0 ! d) k = dd_lookup (full_traj_dicts s ! d) k @ x"
      by blast
    moreover from g obtain y where
      "dd_lookup (full_traj_dicts s1 ! d) k = dd_lookup (full_traj_dicts s0 ! d) k @ y"
      by blast
    ultimately have "dd_lookup (full_traj_dicts s1 ! d) k = dd_lookup (full_traj_dicts s ! d) k @ (x @ y)"
      by simp
    then show ?thesis by blast
  qed
  moreover have "traj_dicts s1 ! d ! e = traj_dicts s ! d ! e" if "(d, e) \<notin> set (q # qs)" for d e
    using that f g by simp
  ultimately show ?case using f g by simp
qed

lemma product_split:
  assumes "d < D" and "e < N"
  shows "\<exists>xs ys. List.product [0..<D] [0..<N] = xs @ (d, e) # ys
           \<and> (d, e) \<notin> set xs \<and> (d, e) \<notin> set ys"
proof -
  have m: "(d, e) \<in> set (List.product [0..<D] [0..<N])" using assms by simp
  have dist: "distinct (List.product [0..<D] [0..<N])" by (simp add: distinct_product)
  from split_list [OF m] obtain xs ys where
    sp: "List.product [0..<D] [0..<N] = xs @ (d, e) # ys" by blast
  with dist have "distinct (xs @ (d, e) # ys)" by simp
  then have "(d, e) \<notin> set xs \<and> (d, e) \<notin> set ys" by auto
  with sp show ?thesis by blast
qed

lemma record_timestep_data_Inr:
  assumes "record_timestep_data s po ac rewards dones' infos' = Inr s'"
  shows "env_keys s = None \<and>
         fold_err (record_lane [(''observations'', po), (''actions'', ac), (''rewards'', Some rewards)]
                     dones' infos')
           (List.product [0..<length (traj_dicts s)] [0..<tr_num_envs s])
           (s\<lparr>emitted := emitted s @ []\<rparr>) = Inr s'"
proof (cases "env_keys s")
  case None
  with assms show ?thesis
    by (simp add: record_timestep_data_def filter_dict_None)
next
  case (Some ks)
  with assms show ?thesis
    by (simp add: record_timestep_data_def filter_dict_Some)
qed

subsection \<open>Episodes\<close>

text \<open>
  C7. In a step that is recorded, for every recorded agent and every lane whose done
  flag is observed: the values accumulated for the lane, those of this step included,
  are consolidated into one array per field and appended to the store of the agent
  (after the episodes the store already holds; episodes of other lanes that end in the
  same step may stand before and after); the episode return appended under
  \<open>'episode_returns'\<close> is the sum of the rewards accumulated for the lane; and the
  accumulator of the lane is empty afterwards.
\<close>

theorem episode_consolidation:
  assumes "record_timestep_data s po ac rewards dones' infos' = Inr s'"
    and "d < length (traj_dicts s)" and "e < tr_num_envs s"
    and "dones' ! e"
    and "distinct (map fst (traj_dicts s ! d ! e))"
  shows "\<exists>acc ws ret.
       append_timestep [(''observations'', po), (''actions'', ac), (''rewards'', Some rewards)]
         infos' (info_keys s) (agent_indices s ! d) e (traj_dicts s ! d ! e) = Inr (acc, ws)
     \<and> py_sum (dd_lookup acc ''rewards'') = Inr ret
     \<and> (\<forall>rs. dd_lookup acc ''rewards'' = map Num rs \<longrightarrow> ret = Num (sum_list rs))
     \<and> (\<forall>k. \<exists>before after.
            dd_lookup (full_traj_dicts s' ! d) k =
              dd_lookup (full_traj_dicts s ! d) k @ before
              @ (if k = ''episode_returns'' then [[ret]] else [])
              @ (if k \<in> insert ''rewards'' (set (map fst acc)) then [dd_lookup acc k] else [])
              @ after)
     \<and> traj_dicts s' ! d ! e = []"
proof -
  let ?env = "[(''observations'', po), (''actions'', ac), (''rewards'', Some rewards)]"
  let ?f = "record_lane ?env dones' infos'"
  define s0 where "s0 = s\<lparr>emitted := emitted s @ []\<rparr>"
  have s0: "traj_dicts s0 = traj_dicts s" "full_traj_dicts s0 = full_traj_dicts s"
    "agent_indices s0 = agent_indices s" "info_keys s0 = info_keys s"
    by (simp_all add: s0_def)
  from record_timestep_data_Inr [OF assms(1)]
  have run: "fold_err ?f (List.product [0..<length (traj_dicts s)] [0..<tr_num_envs s]) s0 = Inr s'"
    by (simp add: s0_def)
  from product_split [OF assms(2,3)] obtain xs ys where
    sp: "List.product [0..<length (traj_dicts s)] [0..<tr_num_envs s] = xs @ (d, e) # ys" and
    nx: "(d, e) \<notin> set xs" and ny: "(d, e) \<notin> set ys"
    by blast
  from run have "bind_err (fold_err ?f xs s0) (fold_err ?f ((d, e) # ys)) = Inr s'"
    unfolding sp fold_err_append .
  then obtain s1 where
    r1: "fold_err ?f xs s0 = Inr s1" and r23: "fold_err ?f ((d, e) # ys) s1 = Inr s'"
    unfolding bind_err_eq_Inr by blast
  from r23 obtain s2 where
    r2: "?f (d, e) s1 = Inr s2" and
    r3: "fold_err ?f ys s2 = Inr s'"
    unfolding fold_err_Cons_Inr by blast
  note f1 = fold_record_lane_frame [OF r1]
  note f3 = fold_record_lane_frame [OF r3]
  from f1 nx have t1: "traj_dicts s1 ! d ! e = traj_dicts s ! d ! e" by (simp add: s0)
  from f1 have c1: "agent_indices s1 = agent_indices s" "info_keys s1 = info_keys s"
    by (simp_all add: s0)
  from record_lane_Inr [OF r2] have el: "e < length dones'" by blast
  have dist: "distinct (map fst (traj_dicts s1 ! d ! e))" using assms(5) t1 by simp
  from record_lane_done [OF r2 el assms(4) dist] obtain acc ws ret where
    a: "append_timestep ?env infos' (info_keys s1) (agent_indices s1 ! d) e
          (traj_dicts s1 ! d ! e) = Inr (acc, ws)" and
    p: "py_sum (dd_lookup acc ''rewards'') = Inr ret" and
    n: "\<forall>rs. dd_lookup acc ''rewards'' = map Num rs \<longrightarrow> ret = Num (sum_list rs)" and
    l: "\<forall>k. dd_lookup (full_traj_dicts s2 ! d) k =
              dd_lookup (full_traj_dicts s1 ! d) k
              @ (if k = ''episode_returns'' then [[ret]] else [])
              @ (if k \<in> insert ''rewards'' (set (map fst acc)) then [dd_lookup acc k] else [])" and
    t2: "traj_dicts s2 ! d ! e = []"
    by blast
  from a have a': "append_timestep ?env infos' (info_keys s) (agent_indices s ! d) e
          (traj_dicts s ! d ! e) = Inr (acc, ws)"
    by (simp add: c1 t1)
  from f3 ny t2 have t3: "traj_dicts s' ! d ! e = []" by simp
  have st: "\<exists>before after.
            dd_lookup (full_traj_dicts s' ! d) k =
              dd_lookup (full_traj_dicts s ! d) k @ before
              @ (if k = ''episode_returns'' then [[ret]] else [])
              @ (if k \<in> insert ''rewards'' (set (map fst acc)) then [dd_lookup acc k] else [])
              @ after" for k
  proof -
    from f1 obtain x where
      x: "dd_lookup (full_traj_dicts s1 ! d) k = dd_lookup (full_traj_dicts s ! d) k @ x"
      unfolding s0 by blast
    from f3 obtain y where
      y: "dd_lookup (full_traj_dicts s' ! d) k = dd_lookup (full_traj_dicts s2 ! d) k @ y"
      by blast
    from l have "dd_lookup (full_traj_dicts s2 ! d) k =
              dd_lookup (full_traj_dicts s1 ! d) k
              @ (if k = ''episode_returns'' then [[ret]] else [])
              @ (if k \<in> insert ''rewards'' (set (map fst acc)) then [dd_lookup acc k] else [])"
      by blast
    with x y have "dd_lookup (full_traj_dicts s' ! d) k =
              dd_lookup (full_traj_dicts s ! d) k @ x
              @ (if k = ''episode_returns'' then [[ret]] else [])
              @ (if k \<in> insert ''rewards'' (set (map fst acc)) then [dd_lookup acc k] else [])
              @ y"
      by simp
    then show ?thesis by blast
  qed
  show ?thesis
    apply (rule exI [of _ acc])
    apply (rule exI [of _ ws])
    apply (rule exI [of _ ret])
    using a' p n t3 st by (intro conjI allI) (assumption | blast)+
qed

text \<open>The definitions that evaluate a concrete run of the recorder.\<close>

lemmas recorder_defs = example_recorder_def example_episode_def record_step_def
  TrajectoryRecorder_init_def TrajectoryRecorder_reset_def TrajectoryRecorder_step_async_def
  TrajectoryRecorder_step_wait_def record_timestep_data_def record_lane_def
  append_timestep_def end_episode_def filter_dict_None cell_def nth_err_def py_sum_def
  dd_lookup_def upt_conv_Cons

theorem episode_consolidation_witness:
  "\<exists>s s'. bind_err example_recorder (fold_err record_step (butlast example_episode)) = Inr s
     \<and> record_timestep_data s (prev_obs s) (Some [[Vec [30]]]) [[Num 3]] [True] [[[]]] = Inr s'
     \<and> 0 < length (traj_dicts s) \<and> 0 < tr_num_envs s \<and> [True] ! 0
     \<and> distinct (map fst (traj_dicts s ! 0 ! 0))
     \<and> dd_lookup (traj_dicts s ! 0 ! 0) ''rewards'' = [Num 1, Num 2]
     \<and> dd_lookup (full_traj_dicts s ! 0) ''rewards'' = []
     \<and> dd_lookup (full_traj_dicts s' ! 0) ''episode_returns'' = [[Num 6]]
     \<and> dd_lookup (full_traj_dicts s' ! 0) ''rewards'' = [[Num 1, Num 2, Num 3]]
     \<and> traj_dicts s' ! 0 ! 0 = []"
proof -
  define s where "s = projr (bind_err example_recorder (fold_err record_step (butlast example_episode)))"
  define s' where "s' = projr (record_timestep_data s (prev_obs s) (Some [[Vec [30]]])
                                 [[Num 3]] [True] [[[]]])"
  have a: "bind_err example_recorder (fold_err record_step (butlast example_episode)) = Inr s"
    by (simp add: s_def recorder_defs)
  have b: "record_timestep_data s (prev_obs s) (Some [[Vec [30]]]) [[Num 3]] [True] [[[]]] = Inr s'"
    by (simp add: s'_def s_def recorder_defs)
  have h: "0 < length (traj_dicts s)" "0 < tr_num_envs s" "[True] ! 0"
    "distinct (map fst (traj_dicts s ! 0 ! 0))"
    by (simp_all add: s_def recorder_defs)
  have v: "dd_lookup (traj_dicts s ! 0 ! 0) ''rewards'' = [Num 1, Num 2]"
    "dd_lookup (full_traj_dicts s ! 0) ''rewards'' = []"
    "dd_lookup (full_traj_dicts s' ! 0) ''episode_returns'' = [[Num 6]]"
    "dd_lookup (full_traj_dicts s' ! 0) ''rewards'' = [[Num 1, Num 2, Num 3]]"
    by (simp_all add: s'_def s_def recorder_defs)
  from episode_consolidation [OF b h] have c: "traj_dicts s' ! 0 ! 0 = []" by blast
  show ?thesis
    apply (rule exI [of _ s])
    apply (rule exI [of _ s'])
    using a b h v c apply (intro conjI)
               apply assumption+
    done
qed

text \<open>The whole episode through \<open>step_async\<close> and \<open>step_wait\<close>: the rewards 1, 2 and 3 give
  the return 6, each field is stored as one array, and the accumulator of the lane is
  empty again.\<close>

lemma example_episode_recorded:
  "map_sum id (\<lambda>s. (full_traj_dicts s, traj_dicts s))
     (bind_err example_recorder (fold_err record_step example_episode))
   = Inr ([[(''episode_returns'', [[Num 6]]),
            (''observations'', [[Vec [0], Vec [1], Vec [2]]]),
            (''actions'', [[Vec [10], Vec [20], Vec [30]]]),
            (''rewards'', [[Num 1, Num 2, Num 3]])]],
          [[[]]])"
  by (simp add: recorder_defs)

text \<open>The accumulators of a recorder hold every field once: they start empty and grow
  by \<open>append\<close> on a \<open>defaultdict\<close> only.\<close>

lemma record_lane_distinct:
  assumes "record_lane env_data dones' infos' p s = Inr s'"
    and "\<forall>row\<in>set (traj_dicts s). \<forall>acc\<in>set row. distinct (map fst acc)"
  shows "\<forall>row\<in>set (traj_dicts s'). \<forall>acc\<in>set row. distinct (map fst acc)"
proof -
  obtain d e where p: "p = (d, e)" by (cases p)
  from assms(1) p obtain acc ws new where
    b: "d < length (traj_dicts s)" "e < length (traj_dicts s ! d)" and
    a: "append_timestep env_data infos' (info_keys s) (agent_indices s ! d) e
          (traj_dicts s ! d ! e) = Inr (acc, ws)" and
    t: "traj_dicts s' = (traj_dicts s)[d := (traj_dicts s ! d)[e := new]]" and
    n: "new = [] \<or> new = acc"
    by (auto simp: record_lane_def bind_err_eq_Inr nth_err_eq_Inr split: if_split_asm)
  from b have "traj_dicts s ! d \<in> set (traj_dicts s)" "traj_dicts s ! d ! e \<in> set (traj_dicts s ! d)"
    by simp_all
  with assms(2) have "distinct (map fst (traj_dicts s ! d ! e))" by blast
  with append_timestep_Inr [OF a] have "distinct (map fst acc)" by blast
  with n have dn: "distinct (map fst new)" by auto
  show ?thesis
  proof (intro ballI)
    fix row acc' assume r: "row \<in> set (traj_dicts s')" and m: "acc' \<in> set row"
    from r t have "row = (traj_dicts s ! d)[e := new] \<or> row \<in> set (traj_dicts s)"
      by (auto dest: set_update_subset_insert [THEN subsetD])
    then show "distinct (map fst acc')"
    proof
      assume "row = (traj_dicts s ! d)[e := new]"
      with m have "acc' = new \<or> acc' \<in> set (traj_dicts s ! d)"
        by (auto dest: set_update_subset_insert [THEN subsetD])
      moreover from b have "traj_dicts s ! d \<in> set (traj_dicts s)" by simp
      ultimately show ?thesis using dn assms(2) by blast
    next
      assume "row \<in> set (traj_dicts s)"
      with m assms(2) show ?thesis by blast
    qed
  qed
qed

lemma fold_record_lane_distinct:
  assumes "fold_err (record_lane env_data dones' infos') ps s = Inr s'"
    and "\<forall>row\<in>set (traj_dicts s). \<forall>acc\<in>set row. distinct (map fst acc)"
  shows "\<forall>row\<in>set (traj_dicts s'). \<forall>acc\<in>set row. distinct (map fst acc)"
  using assms
proof (induction ps arbitrary: s)
  case Nil
  then show ?case by simp
next
  case (Cons p ps)
  from Cons.prems(1) obtain s1 where
    a: "record_lane env_data dones' infos' p s = Inr s1" and
    b: "fold_err (record_lane env_data dones' infos') ps s1 = Inr s'"
    by (auto split: sum.split_asm)
  from Cons.IH [OF b record_lane_distinct [OF a Cons.prems(2)]] show ?case .
qed

lemma init_distinct:
  assumes "TrajectoryRecorder_init n_agents n_envs sel ekeys ikeys = Inr s"
  shows "\<forall>row\<in>set (traj_dicts s). \<forall>acc\<in>set row. distinct (map fst acc)"
  using assms
  by (auto simp: TrajectoryRecorder_init_def bind_err_eq_Inr)

lemma step_wait_distinct:
  assumes "TrajectoryRecorder_step_wait r s = Inr (s', out)"
    and "\<forall>row\<in>set (traj_dicts s). \<forall>acc\<in>set row. distinct (map fst acc)"
  shows "\<forall>row\<in>set (traj_dicts s'). \<forall>acc\<in>set row. distinct (map fst acc)"
proof -
  obtain observations rewards dones' infos' where r: "r = (observations, rewards, dones', infos')"
    by (cases r) auto
  from assms(1) r obtain s1 env_data ws where
    f: "fold_err (record_lane env_data dones' infos')
          (List.product [0..<length (traj_dicts s)] [0..<tr_num_envs s])
          (s\<lparr>emitted := emitted s @ ws\<rparr>) = Inr s1" and
    s': "s' = s1\<lparr>prev_obs := Some observations\<rparr>"
    by (auto simp: TrajectoryRecorder_step_wait_def record_timestep_data_def bind_err_eq_Inr)
  from fold_record_lane_distinct [OF f] assms(2) s' show ?thesis by simp
qed

section \<open>Properties of the victim embedding\<close>

text \<open>With a session, \<open>close\<close> closes the session of the embedded victim and then the
  wrapped pipeline.\<close>

lemma close_with_session:
  "sess (victim w) = Some se \<Longrightarrow>
     \<exists>w'. EmbedVictimWrapper_close w = Inr w'
        \<and> map_option sess_closed (sess (victim w')) = Some True
        \<and> venv_closed w'"
  by (simp add: EmbedVictimWrapper_close_def)

text \<open>
  C9. Closing the victim embedding of a victim without a session (a scripted policy,
  whose \<open>sess\<close> is \<open>None\<close>) raises AttributeError at \<open>self.victim.sess.close()\<close>, before
  \<open>super().close()\<close>: the wrapped pipeline is not closed.
\<close>

theorem close_without_session_raises:
  "sess (victim w) = None \<Longrightarrow> EmbedVictimWrapper_close w = Inl (AttributeError ''close'')"
  by (simp add: EmbedVictimWrapper_close_def)

theorem close_without_session_raises_witness:
  "sess (victim (EmbedVictimWrapper_init \<lparr>sess = None\<rparr> 1)) = None
   \<and> EmbedVictimWrapper_close (EmbedVictimWrapper_init \<lparr>sess = None\<rparr> 1)
       = Inl (AttributeError ''close'')"
proof -
  have h: "sess (victim (EmbedVictimWrapper_init \<lparr>sess = None\<rparr> 1)) = None"
    by (simp add: EmbedVictimWrapper_init_def)
  from h close_without_session_raises [OF h] show ?thesis by blast
qed

section \<open>Properties of the lookback wrapper\<close>

subsection \<open>Construction\<close>

text \<open>
  C5. Constructing the lookback wrapper with \<open>transparent_params = None\<close> fails, whatever
  the collaborators would do: the constructor raises before it loads a policy or builds
  a shadow pipeline, and it makes one attempt only. When \<open>lookback_params\<close> has the key
  \<open>'num_lb'\<close>, which the constructor reads first, the exception is the \<open>ValueError\<close> of the
  source, which is the configuration error of the specification.
\<close>

theorem init_without_transparent_params:
  "(\<exists>e. LookbackRewardVecWrapper_init co load_policy' n lookback_params use_dummy vidx None space
          = Inl e)
   \<and> (map_of lookback_params ''num_lb'' \<noteq> None \<longrightarrow>
        LookbackRewardVecWrapper_init co load_policy' n lookback_params use_dummy vidx None space
          = Inl (ValueError ''LookbackRewardVecWrapper assumes transparent policies and venvs.''))"
  by (auto simp: LookbackRewardVecWrapper_init_def dict_get_def split: option.splits)

theorem init_without_transparent_params_witness:
  "map_of [(''num_lb'', PInt 2), (''type'', PStr ''zoo''), (''path'', PStr ''1'')] ''num_lb'' \<noteq> None
   \<and> LookbackRewardVecWrapper_init example_collaborators
        (\<lambda>_ _. Inr \<lparr>predict = (\<lambda>_ st _. ([], st)), ob_dim = 0\<rparr>) 1
        [(''num_lb'', PInt 2), (''type'', PStr ''zoo''), (''path'', PStr ''1'')] False 0 None 1
      = Inl (ValueError ''LookbackRewardVecWrapper assumes transparent policies and venvs.'')"
  using init_without_transparent_params
    [of example_collaborators "\<lambda>_ _. Inr \<lparr>predict = (\<lambda>_ st _. ([], st)), ob_dim = 0\<rparr>" 1
        "[(''num_lb'', PInt 2), (''type'', PStr ''zoo''), (''path'', PStr ''1'')]" False 0 1]
  by simp

text \<open>
  Every iteration of the loop of \<open>_create_lb_dicts\<close> ends in an exception: it calls
  \<open>EmbedVictimWrapper\<close> with the keyword \<open>transparent_params\<close>, which the constructor in
  \<open>train.py\<close> does not take, and the environment constructors it hands to the vectorized
  environment call \<open>make_env\<close> with the keyword \<open>resettable\<close>, which \<open>make_env\<close> does not
  take. So the loop returns only when it has nothing to iterate over, and a wrapper that
  has been constructed has \<open>lookback_num = 0\<close> and an empty pool.
\<close>

lemma embed_new_raises:
  "EmbedVictimWrapper_new [''multi_env'', ''victim'', ''victim_index'', ''transparent_params'']
       v vidx
     = Inl (TypeError ''got an unexpected keyword argument transparent_params'')"
  by (simp add: EmbedVictimWrapper_new_def EmbedVictimWrapper_params_def check_keywords_def
      bind_err_def)

lemma env_fn_raises:
  "env_fn co i = Inl (TypeError ''got an unexpected keyword argument resettable'')"
  by (simp add: env_fn_def make_env_def make_env_params_def check_keywords_def bind_err_def)

lemma create_loop_Cons:
  "\<exists>e. create_loop co use_dummy n vidx (i # rest) acc = Inl e"
proof -
  let ?mk = "(if use_dummy then make_dummy_vec_multi_env co else make_subproc_vec_multi_env co)
               (map (env_fn co) [0..<n])"
  show ?thesis
  proof (cases ?mk)
    case (Inl e)
    then show ?thesis by (simp add: Let_def bind_err_def)
  next
    case mk: (Inr u)
    show ?thesis
    proof (cases "load_victim co")
      case (Inl e)
      with mk show ?thesis by (simp add: Let_def bind_err_def)
    next
      case (Inr v)
      with mk show ?thesis by (simp add: Let_def embed_new_raises)
    qed
  qed
qed

lemma create_loop_Cons_TypeError:
  assumes "(if use_dummy then make_dummy_vec_multi_env co else make_subproc_vec_multi_env co)
             (map (env_fn co) [0..<n]) = Inr u"
    and "load_victim co = Inr v"
  shows "create_loop co use_dummy n vidx (i # rest) acc
           = Inl (TypeError ''got an unexpected keyword argument transparent_params'')"
  using assms by (simp add: Let_def embed_new_raises)

lemma create_loop_Inr:
  "create_loop co use_dummy n vidx idxs acc = Inr lbs \<Longrightarrow> idxs = [] \<and> lbs = acc"
proof (cases idxs)
  case Nil
  assume "create_loop co use_dummy n vidx idxs acc = Inr lbs"
  with Nil show ?thesis by simp
next
  case (Cons i rest)
  assume a: "create_loop co use_dummy n vidx idxs acc = Inr lbs"
  from create_loop_Cons [of co use_dummy n vidx i rest acc] a Cons show ?thesis by auto
qed

lemma create_lb_dicts_Inr:
  assumes "create_lb_dicts co use_dummy k n vidx = Inr lbs"
  shows "k \<le> 0 \<and> lbs = []"
proof -
  from assms have "[0..<nat k] = [] \<and> lbs = []"
    unfolding create_lb_dicts_def by (rule create_loop_Inr)
  then show ?thesis by simp
qed

lemma init_Inr:
  assumes "LookbackRewardVecWrapper_init co lp n params use_dummy vidx tp space = Inr s"
  shows "lb_dicts s = [] \<and> lookback_num s = 0 \<and> map_of params ''num_lb'' = Some (PInt 0)
       \<and> num_envs s = n \<and> ep_lens s = replicate n 0 \<and> debug_files s = [0]
       \<and> tp = Some (transparent_params s)"
proof (cases "dict_get params ''num_lb''")
  case (Inl e)
  with assms show ?thesis by (simp add: LookbackRewardVecWrapper_init_def bind_err_def)
next
  case (Inr num_lb)
  then have m: "map_of params ''num_lb'' = Some num_lb"
    by (auto simp: dict_get_def split: option.split_asm)
  show ?thesis
  proof (cases num_lb)
    case (PStr x)
    with Inr assms show ?thesis
      by (auto simp: LookbackRewardVecWrapper_init_def bind_err_eq_Inr split: option.split_asm)
  next
    case (PInt k)
    with Inr assms obtain names lbs where
      tp: "tp = Some names" and
      c: "create_lb_dicts co use_dummy k n vidx = Inr lbs" and
      f: "0 < length [0..<nat (k + 1)]" and
      s: "s = \<lparr>num_envs = n, lookback_num = k, lookback_space = space,
                transparent_params = names, victim_index = vidx,
                self_policy = self_policy s, self_action = None, self_obs = None,
                self_state = None, self_new_lb_state = None,
                self_dones = replicate n False, ep_lens = replicate n 0,
                lb_dicts = lbs, debug_files = [0..<nat (k + 1)],
                live_calls = [SetDebugFile ([0..<nat (k + 1)] ! 0)]\<rparr>"
      by (auto simp: LookbackRewardVecWrapper_init_def bind_err_eq_Inr nth_err_eq_Inr Let_def
          split: option.split_asm)
    from create_lb_dicts_Inr [OF c] f have k: "k = 0" and l: "lbs = []" by auto
    have "lb_dicts s = lbs" "lookback_num s = k" "num_envs s = n" "ep_lens s = replicate n 0"
      "debug_files s = [0..<nat (k + 1)]" "transparent_params s = names"
      by (subst s, simp)+
    with k l tp m PInt show ?thesis by simp
  qed
qed

text \<open>The definitions that evaluate a concrete run of the wrapper.\<close>

lemmas example_defs = example_init_def example_run_def example_params_def
  example_collaborators_def example_policy_def example_live_def example_info_def
  example_cycle_def example_reset_def example_step_async_def example_step_wait_def
  LookbackRewardVecWrapper_init_def dict_get_def create_lb_dicts_def
  env_fn_def make_env_def make_env_params_def check_keywords_def
  EmbedVictimWrapper_new_def EmbedVictimWrapper_params_def EmbedVictimWrapper_init_def
  bind_err_def
  new_slot_def nth_err_def Lookback_reset_def process_own_obs_def get_truncated_obs_def
  reset_state_data_def reset_slot_def add_calls_def set_lane_def Lookback_step_async_def
  step_older_def Lookback_step_wait_def process_lb_data_def process_slot_def
  mul_not_dones_def lane_step_def py_take_def agent_get_def ff_signal_def obs_signal_def
  np_sub_def Let_def upt_conv_Cons

text \<open>
  C1. A pool with a slot cannot be constructed: for every \<open>lookback_num\<close> of at least 1
  the constructor of the wrapper raises, whatever the collaborators do, so that the pool
  of the claim is never built. With collaborators that return, the exception is the
  \<open>TypeError\<close> of \<open>EmbedVictimWrapper\<close> called with the keyword \<open>transparent_params\<close>. (The
  loop is written for \<open>lookback_num\<close> iterations, one slot for each of the offsets
  \<open>0..lookback_num - 1\<close>.)
\<close>

theorem construction_with_slots_raises:
  assumes "map_of lookback_params ''num_lb'' = Some (PInt k)" and "1 \<le> k"
  shows "(\<exists>e. LookbackRewardVecWrapper_init co load_policy' n lookback_params use_dummy vidx tp space
             = Inl e)
       \<and> (dict_get lookback_params ''type'' = Inr ty \<and> dict_get lookback_params ''path'' = Inr path
          \<and> load_policy' ty path = Inr pol
          \<and> (if use_dummy then make_dummy_vec_multi_env co else make_subproc_vec_multi_env co)
               (map (env_fn co) [0..<n]) = Inr u
          \<and> load_victim co = Inr v \<and> tp = Some names
          \<longrightarrow> LookbackRewardVecWrapper_init co load_policy' n lookback_params use_dummy vidx tp space
                = Inl (TypeError ''got an unexpected keyword argument transparent_params''))"
proof (intro conjI impI)
  show "\<exists>e. LookbackRewardVecWrapper_init co load_policy' n lookback_params use_dummy vidx tp space
             = Inl e"
  proof (cases "LookbackRewardVecWrapper_init co load_policy' n lookback_params use_dummy vidx tp space")
    case (Inl e)
    then show ?thesis by blast
  next
    case (Inr s)
    from init_Inr [OF Inr] assms show ?thesis by simp
  qed
next
  assume h: "dict_get lookback_params ''type'' = Inr ty \<and> dict_get lookback_params ''path'' = Inr path
          \<and> load_policy' ty path = Inr pol
          \<and> (if use_dummy then make_dummy_vec_multi_env co else make_subproc_vec_multi_env co)
               (map (env_fn co) [0..<n]) = Inr u
          \<and> load_victim co = Inr v \<and> tp = Some names"
  from assms(2) obtain m where m: "nat k = Suc m" by (cases "nat k") auto
  then have u: "[0..<nat k] = 0 # [1..<Suc m]" by (simp add: upt_conv_Cons)
  from h have "create_lb_dicts co use_dummy k n vidx
                 = Inl (TypeError ''got an unexpected keyword argument transparent_params'')"
    unfolding create_lb_dicts_def u by (intro create_loop_Cons_TypeError) blast+
  with h assms(1) show "LookbackRewardVecWrapper_init co load_policy' n lookback_params use_dummy vidx tp space
                = Inl (TypeError ''got an unexpected keyword argument transparent_params'')"
    by (simp add: LookbackRewardVecWrapper_init_def dict_get_def bind_err_def)
qed

theorem construction_with_slots_raises_witness:
  "map_of (example_params 1) ''num_lb'' = Some (PInt 1) \<and> (1::int) \<le> 1
   \<and> example_init 1 False (Some [''ff''])
       = Inl (TypeError ''got an unexpected keyword argument transparent_params'')"
proof -
  have a: "map_of (example_params 1) ''num_lb'' = Some (PInt 1)"
    by (simp add: example_params_def)
  have b: "(1::int) \<le> 1" by simp
  note c = construction_with_slots_raises [OF a b,
      where co = example_collaborators and load_policy' = "\<lambda>_ _. Inr example_policy"
        and n = 1 and use_dummy = False and vidx = 1 and tp = "Some [''ff'']" and space = 1
        and ty = "PStr ''zoo''" and path = "PStr ''1''" and pol = example_policy and u = "()"
        and v = "\<lparr>sess = Some \<lparr>sess_closed = False\<rparr>\<rparr>" and names = "[''ff'']"]
  from c have "example_init 1 False (Some [''ff''])
       = Inl (TypeError ''got an unexpected keyword argument transparent_params'')"
    by (simp add: example_init_def example_params_def dict_get_def example_collaborators_def)
  with a b show ?thesis by blast
qed

text \<open>With the dummy vectorized environment, which calls the environment constructors,
  the exception comes from \<open>make_env\<close>; with \<open>lookback_num = 0\<close> the constructor returns a
  wrapper without a slot.\<close>

lemma example_dummy_construction:
  "example_init 1 True (Some [''ff''])
     = Inl (TypeError ''got an unexpected keyword argument resettable'')"
  by (simp add: example_defs)

lemma example_empty_construction:
  "\<exists>s. example_init 0 False (Some [''ff'']) = Inr s \<and> lb_dicts s = [] \<and> lookback_num s = 0"
  by (simp add: example_defs)

subsection \<open>The pool under the calls\<close>




lemma step_async_frame:
  assumes "Lookback_step_async live acts s = Inr s'"
  shows "ep_lens s' = map (\<lambda>l. l + 1) (ep_lens s) \<and> num_envs s' = num_envs s
       \<and> lookback_num s' = lookback_num s \<and> transparent_params s' = transparent_params s
       \<and> victim_index s' = victim_index s \<and> self_policy s' = self_policy s
       \<and> debug_files s' = debug_files s \<and> self_dones s' = self_dones s
       \<and> self_state s' = self_state s"
  using assms
  by (auto simp: Lookback_step_async_def Let_def bind_err_eq_Inr case_prod_beta
      split: if_split_asm)

lemma reset_slot_id:
  "reset_slot live n a st e lb = Inr lb' \<Longrightarrow> slot_id lb' = slot_id lb"
  by (auto simp: reset_slot_def bind_err_eq_Inr Let_def add_calls_def split: option.split_asm)

lemma reset_slot_lane_info:
  "reset_slot live n a st (Some e) lb = Inr lb' \<Longrightarrow> info (data lb') = info (data lb)"
  by (auto simp: reset_slot_def bind_err_eq_Inr Let_def add_calls_def)

lemma reset_state_data_Inr:
  assumes "reset_state_data live observations e s = Inr s'"
  shows "s' = s\<lparr>lb_dicts := lb_dicts s'\<rparr> \<and>
         map_err (reset_slot live (num_envs s)
                    (fst (predict (self_policy s) (Some (get_truncated_obs s observations)) None None))
                    (snd (predict (self_policy s) (Some (get_truncated_obs s observations)) None None)) e)
           (lb_dicts s) = Inr (lb_dicts s')"
  using assms
  by (auto simp: reset_state_data_def bind_err_eq_Inr Let_def case_prod_beta)

lemma reset_state_data_ids:
  assumes "reset_state_data live observations e s = Inr s'"
  shows "slot_ids s' = slot_ids s"
proof -
  from reset_state_data_Inr [OF assms]
  have "list_all2 (\<lambda>x y. slot_id y = slot_id x) (lb_dicts s) (lb_dicts s')"
    by (auto elim!: map_err_all2 dest: reset_slot_id)
  then show ?thesis by (simp add: slot_ids_def all2_map_eq)
qed

lemma reset_state_data_lane_info:
  assumes "reset_state_data live observations (Some e) s = Inr s'"
  shows "map (\<lambda>lb. info (data lb)) (lb_dicts s') = map (\<lambda>lb. info (data lb)) (lb_dicts s)"
proof -
  from reset_state_data_Inr [OF assms]
  have "list_all2 (\<lambda>x y. info (data y) = info (data x)) (lb_dicts s) (lb_dicts s')"
    by (auto elim!: map_err_all2 dest: reset_slot_lane_info)
  then show ?thesis by (rule all2_map_eq)
qed

lemma process_slot_id:
  "process_slot s p = Inr lb' \<Longrightarrow> slot_id lb' = slot_id (fst p)"
  by (auto simp: process_slot_def bind_err_eq_Inr Let_def case_prod_beta)

lemma process_lb_data_Inr:
  assumes "process_lb_data lb_data s = Inr s'"
  shows "s' = s\<lparr>lb_dicts := lb_dicts s'\<rparr> \<and>
         map_err (process_slot s) (zip (lb_dicts s) lb_data) = Inr (lb_dicts s')"
  using assms by (auto simp: process_lb_data_def bind_err_eq_Inr)

lemma process_lb_data_ids:
  assumes "process_lb_data lb_data s = Inr s'" and "length lb_data = length (lb_dicts s)"
  shows "slot_ids s' = slot_ids s"
proof -
  from process_lb_data_Inr [OF assms(1)]
  have "list_all2 (\<lambda>p y. slot_id y = (slot_id \<circ> fst) p) (zip (lb_dicts s) lb_data) (lb_dicts s')"
    by (auto elim!: map_err_all2 dest: process_slot_id)
  then have "map slot_id (lb_dicts s') = map (slot_id \<circ> fst) (zip (lb_dicts s) lb_data)"
    by (rule all2_map_eq)
  also have "\<dots> = map slot_id (lb_dicts s)"
    using assms(2) by (simp flip: map_map)
  finally show ?thesis by (simp add: slot_ids_def)
qed

lemma diff_loop_cong:
  "map (\<lambda>lb. info (data lb)) xs = map (\<lambda>lb. info (data lb)) ys \<Longrightarrow>
     diff_loop tp vi e vidx xs acc = diff_loop tp vi e vidx ys acc"
proof (induction xs arbitrary: ys acc)
  case Nil
  then show ?case by simp
next
  case (Cons x xs)
  then obtain y ys' where ys: "ys = y # ys'" and h: "info (data x) = info (data y)"
    and t: "map (\<lambda>lb. info (data lb)) xs = map (\<lambda>lb. info (data lb)) ys'"
    by (cases ys) auto
  have "\<And>acc'. diff_loop tp vi e vidx xs acc' = diff_loop tp vi e vidx ys' acc'"
    using Cons.IH [OF t] .
  then show ?case by (simp add: ys h)
qed

lemma map_py_take: "map f (py_take n xs) = py_take n (map f xs)"
  by (simp add: py_take_def take_map)

lemma lane_step_Inr:
  assumes "lane_step live observations infos' e (s, rw) = Inr (s1, rw1)"
  shows "s1 = s\<lparr>lb_dicts := lb_dicts s1\<rparr>
       \<and> slot_ids s1 = slot_ids s
       \<and> map (\<lambda>lb. info (data lb)) (lb_dicts s1) = map (\<lambda>lb. info (data lb)) (lb_dicts s)
       \<and> e < length rw \<and> e < length (ep_lens s) \<and> e < length infos' \<and> e < length (self_dones s)
       \<and> (\<exists>vi b. agent_get (infos' ! e) (victim_index s) = Inr vi
              \<and> diff_loop (transparent_params s) vi e (victim_index s)
                   (py_take (ep_lens s ! e) (lb_dicts s1)) 0 = Inr b
              \<and> rw1 = rw[e := rw ! e + 0.05 * b])
       \<and> (if self_dones s ! e then reset_state_data live observations (Some e) s = Inr s1
           else s1 = s)"
proof -
  from assms obtain vi b where
    d: "e < length (self_dones s)" and
    r: "(if self_dones s ! e then reset_state_data live observations (Some e) s else Inr s) = Inr s1" and
    l: "e < length (ep_lens s1)" and i: "e < length infos'" and
    v: "agent_get (infos' ! e) (victim_index s1) = Inr vi" and
    b: "diff_loop (transparent_params s1) vi e (victim_index s1)
          (py_take (ep_lens s1 ! e) (lb_dicts s1)) 0 = Inr b" and
    w: "e < length rw" "rw1 = rw[e := rw ! e + 0.05 * b]"
    by (auto simp: lane_step_def bind_err_eq_Inr nth_err_eq_Inr Let_def)
  have f: "s1 = s\<lparr>lb_dicts := lb_dicts s1\<rparr>"
    using r reset_state_data_Inr [of live observations "Some e" s s1]
    by (auto split: if_split_asm)
  have ids: "slot_ids s1 = slot_ids s"
    using r reset_state_data_ids [of live observations "Some e" s s1]
    by (auto split: if_split_asm)
  have inf: "map (\<lambda>lb. info (data lb)) (lb_dicts s1) = map (\<lambda>lb. info (data lb)) (lb_dicts s)"
    using r reset_state_data_lane_info [of live observations e s s1]
    by (auto split: if_split_asm)
  have eq: "ep_lens s1 = ep_lens s" "victim_index s1 = victim_index s"
    "transparent_params s1 = transparent_params s"
    by (subst f, simp)+
  from r have r': "if self_dones s ! e then reset_state_data live observations (Some e) s = Inr s1
           else s1 = s"
    by (auto split: if_split_asm)
  show ?thesis
    using f ids inf d l i v b w r' unfolding eq by blast
qed

lemma lane_loop_frame:
  assumes "fold_err (lane_step live observations infos') es (s, rw) = Inr (s', rw')"
  shows "s' = s\<lparr>lb_dicts := lb_dicts s'\<rparr>
       \<and> slot_ids s' = slot_ids s
       \<and> map (\<lambda>lb. info (data lb)) (lb_dicts s') = map (\<lambda>lb. info (data lb)) (lb_dicts s)
       \<and> length rw' = length rw
       \<and> (\<forall>e. e \<notin> set es \<longrightarrow> rw' ! e = rw ! e)"
  using assms
proof (induction es arbitrary: s rw)
  case Nil
  then show ?case by simp
next
  case (Cons x xs)
  from Cons.prems obtain s1 rw1 where
    st: "lane_step live observations infos' x (s, rw) = Inr (s1, rw1)" and
    rest: "fold_err (lane_step live observations infos') xs (s1, rw1) = Inr (s', rw')"
    by (auto split: sum.split_asm)
  note a = lane_step_Inr [OF st]
  note b = Cons.IH [OF rest]
  from a obtain c where rw1: "rw1 = rw[x := c]" by blast
  have f: "s' = s\<lparr>lb_dicts := lb_dicts s'\<rparr>"
  proof -
    from a have "s1 = s\<lparr>lb_dicts := lb_dicts s1\<rparr>" by blast
    moreover from b have "s' = s1\<lparr>lb_dicts := lb_dicts s'\<rparr>" by blast
    ultimately have "s' = (s\<lparr>lb_dicts := lb_dicts s1\<rparr>)\<lparr>lb_dicts := lb_dicts s'\<rparr>" by simp
    then show ?thesis by simp
  qed
  have "\<forall>e. e \<notin> set (x # xs) \<longrightarrow> rw' ! e = rw ! e"
    using b rw1 by auto
  moreover have "length rw' = length rw" using b rw1 by simp
  moreover have "slot_ids s' = slot_ids s" using a b by simp
  moreover have "map (\<lambda>lb. info (data lb)) (lb_dicts s') = map (\<lambda>lb. info (data lb)) (lb_dicts s)"
    using a b by simp
  ultimately show ?case using f by blast
qed

lemma lane_loop_reward:
  assumes "fold_err (lane_step live observations infos') es (s, rw) = Inr (s', rw')"
    and "distinct es" and "e \<in> set es"
  shows "e < length rw \<and> e < length (ep_lens s) \<and> e < length infos' \<and> e < length (self_dones s)
       \<and> (\<exists>vi b. agent_get (infos' ! e) (victim_index s) = Inr vi
              \<and> diff_loop (transparent_params s) vi e (victim_index s)
                   (py_take (ep_lens s ! e) (lb_dicts s')) 0 = Inr b
              \<and> rw' ! e = rw ! e + 0.05 * b)"
  using assms
proof (induction es arbitrary: s rw)
  case Nil
  then show ?case by simp
next
  case (Cons x xs)
  from Cons.prems(1) obtain s1 rw1 where
    st: "lane_step live observations infos' x (s, rw) = Inr (s1, rw1)" and
    rest: "fold_err (lane_step live observations infos') xs (s1, rw1) = Inr (s', rw')"
    by (auto split: sum.split_asm)
  note a = lane_step_Inr [OF st]
  note fr = lane_loop_frame [OF rest]
  from a have s1: "s1 = s\<lparr>lb_dicts := lb_dicts s1\<rparr>" by blast
  have eq: "ep_lens s1 = ep_lens s" "victim_index s1 = victim_index s"
    "transparent_params s1 = transparent_params s" "self_dones s1 = self_dones s"
    by (subst s1, simp)+
  show ?case
  proof (cases "e = x")
    case True
    from a obtain vi b where
      v: "agent_get (infos' ! x) (victim_index s) = Inr vi" and
      b: "diff_loop (transparent_params s) vi x (victim_index s)
            (py_take (ep_lens s ! x) (lb_dicts s1)) 0 = Inr b" and
      w: "rw1 = rw[x := rw ! x + 0.05 * b]" and bd: "x < length rw"
      by blast
    from Cons.prems(2) have "x \<notin> set xs" by simp
    with fr have "rw' ! x = rw1 ! x" by blast
    with w bd have r: "rw' ! x = rw ! x + 0.05 * b" by simp
    from fr have "map (\<lambda>lb. info (data lb)) (py_take (ep_lens s ! x) (lb_dicts s'))
        = map (\<lambda>lb. info (data lb)) (py_take (ep_lens s ! x) (lb_dicts s1))"
      by (simp add: map_py_take)
    from diff_loop_cong [OF this] b
    have "diff_loop (transparent_params s) vi x (victim_index s)
            (py_take (ep_lens s ! x) (lb_dicts s')) 0 = Inr b"
      by simp
    with v r a True show ?thesis by blast
  next
    case False
    with Cons.prems have "distinct xs" "e \<in> set xs" by auto
    from Cons.IH [OF rest this] obtain vi b where
      bd: "e < length rw1" "e < length (ep_lens s1)" "e < length infos'" "e < length (self_dones s1)" and
      v: "agent_get (infos' ! e) (victim_index s1) = Inr vi" and
      b: "diff_loop (transparent_params s1) vi e (victim_index s1)
            (py_take (ep_lens s1 ! e) (lb_dicts s')) 0 = Inr b" and
      r: "rw' ! e = rw1 ! e + 0.05 * b"
      by blast
    from a obtain c where rw1: "rw1 = rw[x := c]" by blast
    with False have "rw1 ! e = rw ! e" "length rw1 = length rw" by simp_all
    with bd v b r show ?thesis unfolding eq by auto
  qed
qed

lemma process_own_obs_frame:
  "process_own_obs observations s =
     s\<lparr>self_obs := self_obs (process_own_obs observations s),
       self_action := self_action (process_own_obs observations s),
       self_state := snd (predict (self_policy s) (Some (get_truncated_obs s observations))
                            (self_state s) (Some (self_dones s)))\<rparr>"
  by (simp add: process_own_obs_def Let_def case_prod_beta)

lemma mul_not_dones_length:
  "mul_not_dones lens ds = Inr lens' \<Longrightarrow> length lens' = length lens"
  by (auto simp: mul_not_dones_def split: if_split_asm)

lemma mul_not_dones_nth:
  assumes "mul_not_dones lens ds = Inr lens'" and "e < length ds" and "e < length lens"
  shows "length lens' = length lens \<and> lens' ! e = (if ds ! e then 0 else lens ! e)"
proof (cases "length ds = length lens")
  case True
  with assms show ?thesis by (auto simp: mul_not_dones_def)
next
  case False
  with assms have one: "length ds = 1" and l: "lens' = map (\<lambda>l. l * (if hd ds then 0 else 1)) lens"
    by (auto simp: mul_not_dones_def split: if_split_asm)
  from one assms(2) have "e = 0" by simp
  moreover from one have "hd ds = ds ! 0" by (cases ds) auto
  ultimately show ?thesis using l assms(3) by simp
qed

lemma step_wait_Inr:
  assumes "Lookback_step_wait live (observations, rewards, dones', infos') lb_wait s = Inr (s', out)"
  shows "num_envs s' = num_envs s \<and> transparent_params s' = transparent_params s
       \<and> victim_index s' = victim_index s \<and> lookback_num s' = lookback_num s
       \<and> self_policy s' = self_policy s \<and> debug_files s' = debug_files s
       \<and> self_dones s' = dones' \<and> mul_not_dones (ep_lens s) dones' = Inr (ep_lens s')
       \<and> slot_ids s' = slot_ids s
       \<and> self_state s' = snd (predict (self_policy s) (Some (get_truncated_obs s observations))
                                (self_state s) (Some dones'))
       \<and> (\<exists>s3 rewards'. out = (observations, rewards', dones', infos')
             \<and> fold_err (lane_step live observations infos') [0..<num_envs s] (s3, rewards)
                 = Inr (s', rewards')
             \<and> ep_lens s3 = ep_lens s' \<and> self_dones s3 = dones'
             \<and> transparent_params s3 = transparent_params s \<and> victim_index s3 = victim_index s)"
proof -
  define s0 where "s0 = s\<lparr>self_dones := dones', live_calls := live_calls s @ [StepWait]\<rparr>"
  define s1 where "s1 = process_own_obs observations s0"
  define s2 where "s2 = s1\<lparr>lb_dicts := map (add_calls [StepWait]) (lb_dicts s1)\<rparr>"
  have s1: "s1 = s0\<lparr>self_obs := self_obs s1, self_action := self_action s1,
       self_state := snd (predict (self_policy s0) (Some (get_truncated_obs s0 observations))
                            (self_state s0) (Some (self_dones s0)))\<rparr>"
    unfolding s1_def by (rule process_own_obs_frame)
  from assms obtain s3 lens s4 rewards' where
    p: "process_lb_data (map (\<lambda>lb_dict. lb_wait (slot_id lb_dict)) (lb_dicts s1)) s2 = Inr s3" and
    m: "mul_not_dones (ep_lens s3) (self_dones s3) = Inr lens" and
    f: "fold_err (lane_step live observations infos') [0..<num_envs s3]
          (s3\<lparr>ep_lens := lens\<rparr>, rewards) = Inr (s4, rewards')" and
    o: "s' = s4" "out = (observations, rewards', self_dones s4, infos')"
    by (auto simp: Lookback_step_wait_def Let_def bind_err_eq_Inr s0_def s1_def s2_def
        case_prod_beta)
  have s3: "s3 = s2\<lparr>lb_dicts := lb_dicts s3\<rparr>"
    using process_lb_data_Inr [OF p] by blast
  have ids3: "slot_ids s3 = slot_ids s2"
    by (rule process_lb_data_ids [OF p]) (simp add: s2_def)
  have ids2: "slot_ids s2 = slot_ids s"
    by (subst s2_def, subst s1, simp add: slot_ids_def s0_def add_calls_def comp_def)
  note fr = lane_loop_frame [OF f]
  from fr have s4: "s4 = (s3\<lparr>ep_lens := lens\<rparr>)\<lparr>lb_dicts := lb_dicts s4\<rparr>" by blast
  have chain: "s4 = s0\<lparr>self_obs := self_obs s1, self_action := self_action s1,
       self_state := snd (predict (self_policy s0) (Some (get_truncated_obs s0 observations))
                            (self_state s0) (Some (self_dones s0))),
       ep_lens := lens, lb_dicts := lb_dicts s4\<rparr>"
    by (subst s4, subst s3, subst s2_def, subst s1) simp
  have g: "get_truncated_obs s0 observations = get_truncated_obs s observations"
    by (simp add: get_truncated_obs_def s0_def)
  have e3: "ep_lens s3 = ep_lens s" "self_dones s3 = dones'" "num_envs s3 = num_envs s"
    "transparent_params s3 = transparent_params s" "victim_index s3 = victim_index s"
    by (subst s3, subst s2_def, subst s1, simp add: s0_def)+
  have "slot_ids s4 = slot_ids s" using fr ids3 ids2 by (simp add: slot_ids_def)
  moreover have "num_envs s4 = num_envs s" "transparent_params s4 = transparent_params s"
    "victim_index s4 = victim_index s" "lookback_num s4 = lookback_num s"
    "self_policy s4 = self_policy s" "debug_files s4 = debug_files s"
    "self_dones s4 = dones'" "ep_lens s4 = lens"
    "self_state s4 = snd (predict (self_policy s) (Some (get_truncated_obs s observations))
                                (self_state s) (Some dones'))"
    by (subst chain, simp add: s0_def get_truncated_obs_def)+
  moreover have "ep_lens (s3\<lparr>ep_lens := lens\<rparr>) = lens" "self_dones (s3\<lparr>ep_lens := lens\<rparr>) = dones'"
    "transparent_params (s3\<lparr>ep_lens := lens\<rparr>) = transparent_params s"
    "victim_index (s3\<lparr>ep_lens := lens\<rparr>) = victim_index s"
    using e3 by simp_all
  ultimately show ?thesis
    using m f o e3 by (intro conjI exI [of _ "s3\<lparr>ep_lens := lens\<rparr>"] exI [of _ rewards']) simp_all
qed

lemma step_wait_lane:
  assumes "Lookback_step_wait live (observations, rewards, dones', infos') lb_wait s
             = Inr (s', (obs', rewards', dones'', infos''))"
    and "e < num_envs s"
  shows "obs' = observations \<and> dones'' = dones' \<and> infos'' = infos'
       \<and> length rewards' = length rewards \<and> e < length rewards \<and> e < length dones'
       \<and> e < length (ep_lens s) \<and> e < length infos'
       \<and> length (ep_lens s') = length (ep_lens s)
       \<and> ep_lens s' ! e = (if dones' ! e then 0 else ep_lens s ! e)
       \<and> (\<exists>vi b. agent_get (infos' ! e) (victim_index s) = Inr vi
              \<and> diff_loop (transparent_params s) vi e (victim_index s)
                   (py_take (ep_lens s' ! e) (lb_dicts s')) 0 = Inr b
              \<and> rewards' ! e = rewards ! e + 0.05 * b)"
proof -
  from step_wait_Inr [OF assms(1)] obtain s3 where
    m: "mul_not_dones (ep_lens s) dones' = Inr (ep_lens s')" and
    o: "obs' = observations" "dones'' = dones'" "infos'' = infos'" and
    f: "fold_err (lane_step live observations infos') [0..<num_envs s] (s3, rewards)
          = Inr (s', rewards')" and
    e3: "ep_lens s3 = ep_lens s'" "self_dones s3 = dones'"
      "transparent_params s3 = transparent_params s" "victim_index s3 = victim_index s"
    by auto
  have mem: "e \<in> set [0..<num_envs s]" using assms(2) by simp
  from lane_loop_reward [OF f distinct_upt mem] obtain vi b where
    bd: "e < length rewards" "e < length (ep_lens s')" "e < length infos'" "e < length dones'" and
    v: "agent_get (infos' ! e) (victim_index s) = Inr vi" and
    b: "diff_loop (transparent_params s) vi e (victim_index s)
          (py_take (ep_lens s' ! e) (lb_dicts s')) 0 = Inr b" and
    r: "rewards' ! e = rewards ! e + 0.05 * b"
    unfolding e3 by blast
  have len: "length (ep_lens s') = length (ep_lens s)"
    using m by (rule mul_not_dones_length)
  with bd have "e < length (ep_lens s)" by simp
  from mul_not_dones_nth [OF m bd(4) this]
  have "ep_lens s' ! e = (if dones' ! e then 0 else ep_lens s ! e)" by simp
  moreover have "length rewards' = length rewards"
    using lane_loop_frame [OF f] by blast
  ultimately show ?thesis using o bd len v b r by auto
qed










subsection \<open>The reward bonus\<close>

text \<open>What one valid slot contributes to \<open>env_diff_reward\<close>: the norm of the difference of
  the \<open>'ff'\<close> signals when \<open>'ff'\<close> is a transparent parameter, nothing otherwise; when
  \<open>'obs'\<close> is one, the difference of the \<open>'obs'\<close> signals exists as well.\<close>

lemma diff_loop_Inr:
  assumes "diff_loop tp vi e vidx lbs acc = Inr r"
  shows "\<exists>ds. length ds = length lbs \<and> r = acc + sum_list ds \<and>
           (\<forall>i<length lbs. \<exists>lvi. agent_get (info (data (lbs ! i)) e) vidx = Inr lvi \<and>
              (if ''ff'' \<in> set tp
               then \<exists>a b d. ff_signal vi e = Inr a \<and> ff_signal lvi e = Inr b
                      \<and> np_sub a b = Inr d \<and> ds ! i = linalg_norm d
               else ds ! i = 0) \<and>
              (''obs'' \<in> set tp \<longrightarrow>
                 (\<exists>a b d. obs_signal vi e = Inr a \<and> obs_signal lvi e = Inr b
                      \<and> np_sub a b = Inr d)))"
  using assms
proof (induction lbs arbitrary: acc)
  case Nil
  then show ?case by simp
next
  case (Cons lb rest)
  from Cons.prems obtain lvi acc' where
    l: "agent_get (info (data lb) e) vidx = Inr lvi" and
    f: "(if ''ff'' \<in> set tp then
           bind_err (ff_signal vi e) (\<lambda>a.
           bind_err (ff_signal lvi e) (\<lambda>b.
           bind_err (np_sub a b) (\<lambda>diff_ff. Inr (acc + linalg_norm diff_ff))))
         else Inr acc) = Inr acc'" and
    o: "(if ''obs'' \<in> set tp then
           bind_err (obs_signal vi e) (\<lambda>a.
           bind_err (obs_signal lvi e) (\<lambda>b.
           bind_err (np_sub a b) (\<lambda>diff_obs. Inr ())))
         else Inr ()) = Inr ()" and
    r: "diff_loop tp vi e vidx rest acc' = Inr r"
    by (auto simp: bind_err_eq_Inr)
  from Cons.IH [OF r] obtain ds where
    len: "length ds = length rest" and sum: "r = acc' + sum_list ds" and
    all: "\<forall>i<length rest. \<exists>lvi. agent_get (info (data (rest ! i)) e) vidx = Inr lvi \<and>
              (if ''ff'' \<in> set tp
               then \<exists>a b d. ff_signal vi e = Inr a \<and> ff_signal lvi e = Inr b
                      \<and> np_sub a b = Inr d \<and> ds ! i = linalg_norm d
               else ds ! i = 0) \<and>
              (''obs'' \<in> set tp \<longrightarrow>
                 (\<exists>a b d. obs_signal vi e = Inr a \<and> obs_signal lvi e = Inr b
                      \<and> np_sub a b = Inr d))"
    by blast
  define d0 where "d0 = acc' - acc"
  have head: "if ''ff'' \<in> set tp
        then \<exists>a b d. ff_signal vi e = Inr a \<and> ff_signal lvi e = Inr b
               \<and> np_sub a b = Inr d \<and> d0 = linalg_norm d
        else d0 = 0"
    using f by (auto simp: bind_err_eq_Inr d0_def split: if_split_asm)
  have ohead: "''obs'' \<in> set tp \<longrightarrow>
        (\<exists>a b d. obs_signal vi e = Inr a \<and> obs_signal lvi e = Inr b \<and> np_sub a b = Inr d)"
    using o by (auto simp: bind_err_eq_Inr split: if_split_asm)
  have "length (d0 # ds) = length (lb # rest)" using len by simp
  moreover have "r = acc + sum_list (d0 # ds)" using sum by (simp add: d0_def)
  moreover have "\<forall>i<length (lb # rest). \<exists>lvi. agent_get (info (data ((lb # rest) ! i)) e) vidx = Inr lvi \<and>
              (if ''ff'' \<in> set tp
               then \<exists>a b d. ff_signal vi e = Inr a \<and> ff_signal lvi e = Inr b
                      \<and> np_sub a b = Inr d \<and> (d0 # ds) ! i = linalg_norm d
               else (d0 # ds) ! i = 0) \<and>
              (''obs'' \<in> set tp \<longrightarrow>
                 (\<exists>a b d. obs_signal vi e = Inr a \<and> obs_signal lvi e = Inr b
                      \<and> np_sub a b = Inr d))"
  proof (intro allI impI)
    fix i assume "i < length (lb # rest)"
    show "\<exists>lvi. agent_get (info (data ((lb # rest) ! i)) e) vidx = Inr lvi \<and>
              (if ''ff'' \<in> set tp
               then \<exists>a b d. ff_signal vi e = Inr a \<and> ff_signal lvi e = Inr b
                      \<and> np_sub a b = Inr d \<and> (d0 # ds) ! i = linalg_norm d
               else (d0 # ds) ! i = 0) \<and>
              (''obs'' \<in> set tp \<longrightarrow>
                 (\<exists>a b d. obs_signal vi e = Inr a \<and> obs_signal lvi e = Inr b
                      \<and> np_sub a b = Inr d))"
    proof (cases i)
      case 0
      with l head ohead show ?thesis by auto
    next
      case (Suc j)
      with \<open>i < length (lb # rest)\<close> have "j < length rest" by simp
      with all show ?thesis unfolding Suc nth_Cons_Suc by blast
    qed
  qed
  ultimately show ?case by blast
qed

lemma diff_loop_without_ff:
  assumes "diff_loop tp vi e vidx lbs acc = Inr r" and "''ff'' \<notin> set tp"
  shows "r = acc"
proof -
  from diff_loop_Inr [OF assms(1)] assms(2) obtain ds where
    "length ds = length lbs" "r = acc + sum_list ds" "\<forall>i<length lbs. ds ! i = 0"
    by auto
  moreover then have "ds = replicate (length lbs) 0"
    by (simp add: list_eq_iff_nth_eq)
  ultimately show ?thesis by (simp add: sum_list_replicate)
qed

lemma py_take_nth: "i < length (py_take n xs) \<Longrightarrow> py_take n xs ! i = xs ! i"
  by (simp add: py_take_def split: if_split_asm)

lemma py_take_nonneg: "0 \<le> n \<Longrightarrow> py_take n xs = take (nat n) xs"
  by (simp add: py_take_def)

text \<open>The reward of a lane after \<open>step_wait\<close>: the live reward plus 0.05 times the sum of
  one term per valid slot, the valid slots being the first \<open>ep_lens[env_idx]\<close> of the
  pool.\<close>

lemma step_wait_bonus:
  assumes "Lookback_step_wait live (observations, rewards, dones', infos') lb_wait s
             = Inr (s', (obs', rewards', dones'', infos''))"
    and "e < num_envs s"
  shows "\<exists>vi ds. agent_get (infos' ! e) (victim_index s) = Inr vi
          \<and> length ds = length (py_take (ep_lens s' ! e) (lb_dicts s'))
          \<and> rewards' ! e = rewards ! e + 0.05 * sum_list ds
          \<and> (\<forall>i<length ds. \<exists>lvi.
                agent_get (info (data (lb_dicts s' ! i)) e) (victim_index s) = Inr lvi \<and>
                (if ''ff'' \<in> set (transparent_params s)
                 then \<exists>a b d. ff_signal vi e = Inr a \<and> ff_signal lvi e = Inr b
                        \<and> np_sub a b = Inr d \<and> ds ! i = linalg_norm d
                 else ds ! i = 0) \<and>
                (''obs'' \<in> set (transparent_params s) \<longrightarrow>
                   (\<exists>a b d. obs_signal vi e = Inr a \<and> obs_signal lvi e = Inr b
                        \<and> np_sub a b = Inr d)))"
proof -
  let ?valid = "py_take (ep_lens s' ! e) (lb_dicts s')"
  from step_wait_lane [OF assms] obtain vi b where
    v: "agent_get (infos' ! e) (victim_index s) = Inr vi" and
    b: "diff_loop (transparent_params s) vi e (victim_index s) ?valid 0 = Inr b" and
    r: "rewards' ! e = rewards ! e + 0.05 * b"
    by blast
  let ?P = "\<lambda>lb t. \<exists>lvi.
                agent_get (info (data lb) e) (victim_index s) = Inr lvi \<and>
                (if ''ff'' \<in> set (transparent_params s)
                 then \<exists>a b d. ff_signal vi e = Inr a \<and> ff_signal lvi e = Inr b
                        \<and> np_sub a b = Inr d \<and> t = linalg_norm d
                 else t = 0) \<and>
                (''obs'' \<in> set (transparent_params s) \<longrightarrow>
                   (\<exists>a b d. obs_signal vi e = Inr a \<and> obs_signal lvi e = Inr b
                        \<and> np_sub a b = Inr d))"
  from diff_loop_Inr [OF b] obtain ds where
    len: "length ds = length ?valid" and sum: "b = 0 + sum_list ds" and
    all: "\<forall>i<length ?valid. ?P (?valid ! i) (ds ! i)"
    by blast
  have A: "\<forall>i<length ds. ?P (lb_dicts s' ! i) (ds ! i)"
  proof (intro allI impI)
    fix i assume "i < length ds"
    then have i: "i < length ?valid" using len by simp
    then have eq: "?valid ! i = lb_dicts s' ! i" by (rule py_take_nth)
    from all i have "?P (?valid ! i) (ds ! i)" by blast
    then show "?P (lb_dicts s' ! i) (ds ! i)" unfolding eq .
  qed
  have r': "rewards' ! e = rewards ! e + 0.05 * sum_list ds" using r sum by simp
  show ?thesis
    apply (rule exI [of _ vi])
    apply (rule exI [of _ ds])
    using v len r' A apply (intro conjI)
       apply assumption+
    done
qed

lemma step_wait_outside:
  assumes "Lookback_step_wait live (observations, rewards, dones', infos') lb_wait s
             = Inr (s', (obs', rewards', dones'', infos''))"
  shows "length rewards' = length rewards \<and> (\<forall>e. \<not> e < num_envs s \<longrightarrow> rewards' ! e = rewards ! e)"
proof -
  from step_wait_Inr [OF assms] obtain s3 where
    "fold_err (lane_step live observations infos') [0..<num_envs s] (s3, rewards)
          = Inr (s', rewards')"
    by auto
  from lane_loop_frame [OF this] show ?thesis by simp
qed

lemma linalg_norm_unit: "linalg_norm [1, 0] = 1"
  by (simp add: linalg_norm_def)

text \<open>
  With \<open>'ff'\<close> among the transparent parameters, the reward that the body of \<open>step_wait\<close>
  computes for a lane is the live reward of that lane plus 0.05 times the sum, over the
  valid slots of the lane (the first \<open>ep_lens[env_idx]\<close> slots of the pool), of the
  Euclidean norm of the difference between the \<open>'ff'\<close> signal of the live victim and that
  of the slot's victim for the same lane. Nothing is clipped or truncated.
\<close>

lemma step_wait_reward_with_ff:
  assumes "Lookback_step_wait live (observations, rewards, dones', infos') lb_wait s
             = Inr (s', (obs', rewards', dones'', infos''))"
    and "e < num_envs s"
    and "''ff'' \<in> set (transparent_params s)"
  shows "\<exists>vi ds. agent_get (infos' ! e) (victim_index s) = Inr vi
          \<and> length ds = length (py_take (ep_lens s' ! e) (lb_dicts s'))
          \<and> (\<forall>i<length ds. \<exists>lvi a b d.
                agent_get (info (data (lb_dicts s' ! i)) e) (victim_index s) = Inr lvi
              \<and> ff_signal vi e = Inr a \<and> ff_signal lvi e = Inr b
              \<and> np_sub a b = Inr d \<and> ds ! i = linalg_norm d)
          \<and> rewards' ! e = rewards ! e + 0.05 * sum_list ds"
proof -
  from step_wait_bonus [OF assms(1,2)] obtain vi ds where
    v: "agent_get (infos' ! e) (victim_index s) = Inr vi" and
    len: "length ds = length (py_take (ep_lens s' ! e) (lb_dicts s'))" and
    r: "rewards' ! e = rewards ! e + 0.05 * sum_list ds" and
    all: "\<forall>i<length ds. \<exists>lvi.
                agent_get (info (data (lb_dicts s' ! i)) e) (victim_index s) = Inr lvi \<and>
                (if ''ff'' \<in> set (transparent_params s)
                 then \<exists>a b d. ff_signal vi e = Inr a \<and> ff_signal lvi e = Inr b
                        \<and> np_sub a b = Inr d \<and> ds ! i = linalg_norm d
                 else ds ! i = 0) \<and>
                (''obs'' \<in> set (transparent_params s) \<longrightarrow>
                   (\<exists>a b d. obs_signal vi e = Inr a \<and> obs_signal lvi e = Inr b
                        \<and> np_sub a b = Inr d))"
    by blast
  have "\<forall>i<length ds. \<exists>lvi a b d.
                agent_get (info (data (lb_dicts s' ! i)) e) (victim_index s) = Inr lvi
              \<and> ff_signal vi e = Inr a \<and> ff_signal lvi e = Inr b
              \<and> np_sub a b = Inr d \<and> ds ! i = linalg_norm d"
    using all assms(3) by (simp only: if_True) blast
  with v len r show ?thesis by blast
qed

text \<open>
  Without \<open>'ff'\<close> among the transparent parameters, the body of \<open>step_wait\<close> returns the
  live rewards unchanged; when \<open>'obs'\<close> is among them, the difference of the \<open>'obs'\<close>
  signals of the live victim and of every valid slot's victim is computed (the signals
  are read and subtracted), and it is dropped.
\<close>

lemma step_wait_reward_without_ff:
  assumes "Lookback_step_wait live (observations, rewards, dones', infos') lb_wait s
             = Inr (s', (obs', rewards', dones'', infos''))"
    and "''ff'' \<notin> set (transparent_params s)"
  shows "rewards' = rewards
       \<and> (''obs'' \<in> set (transparent_params s) \<longrightarrow>
            (\<forall>e<num_envs s. \<forall>i<length (py_take (ep_lens s' ! e) (lb_dicts s')).
               \<exists>vi lvi a b d.
                  agent_get (infos' ! e) (victim_index s) = Inr vi
                \<and> agent_get (info (data (lb_dicts s' ! i)) e) (victim_index s) = Inr lvi
                \<and> obs_signal vi e = Inr a \<and> obs_signal lvi e = Inr b
                \<and> np_sub a b = Inr d))"
proof (intro conjI impI allI)
  note out = step_wait_outside [OF assms(1)]
  show "rewards' = rewards"
  proof (rule nth_equalityI)
    show "length rewards' = length rewards" using out by blast
  next
    fix e assume "e < length rewards'"
    show "rewards' ! e = rewards ! e"
    proof (cases "e < num_envs s")
      case True
      from step_wait_bonus [OF assms(1) True] assms(2) obtain ds where
        r: "rewards' ! e = rewards ! e + 0.05 * sum_list ds" and
        z: "\<forall>i<length ds. ds ! i = 0"
        by (simp only: if_False) blast
      from z have "ds = replicate (length ds) 0" by (simp add: list_eq_iff_nth_eq)
      then have "sum_list ds = 0" by (metis sum_list_replicate mult_zero_right)
      with r show ?thesis by simp
    next
      case False
      with out show ?thesis by blast
    qed
  qed
next
  fix e i
  assume o: "''obs'' \<in> set (transparent_params s)" and e: "e < num_envs s"
    and i: "i < length (py_take (ep_lens s' ! e) (lb_dicts s'))"
  from step_wait_bonus [OF assms(1) e] obtain vi ds where
    v: "agent_get (infos' ! e) (victim_index s) = Inr vi" and
    len: "length ds = length (py_take (ep_lens s' ! e) (lb_dicts s'))" and
    all: "\<forall>i<length ds. \<exists>lvi.
                agent_get (info (data (lb_dicts s' ! i)) e) (victim_index s) = Inr lvi \<and>
                (if ''ff'' \<in> set (transparent_params s)
                 then \<exists>a b d. ff_signal vi e = Inr a \<and> ff_signal lvi e = Inr b
                        \<and> np_sub a b = Inr d \<and> ds ! i = linalg_norm d
                 else ds ! i = 0) \<and>
                (''obs'' \<in> set (transparent_params s) \<longrightarrow>
                   (\<exists>a b d. obs_signal vi e = Inr a \<and> obs_signal lvi e = Inr b
                        \<and> np_sub a b = Inr d))"
    by blast
  from all i len o have "\<exists>lvi a b d.
       agent_get (info (data (lb_dicts s' ! i)) e) (victim_index s) = Inr lvi
     \<and> obs_signal vi e = Inr a \<and> obs_signal lvi e = Inr b \<and> np_sub a b = Inr d"
    by (simp only: ) blast
  with v show "\<exists>vi lvi a b d.
                  agent_get (infos' ! e) (victim_index s) = Inr vi
                \<and> agent_get (info (data (lb_dicts s' ! i)) e) (victim_index s) = Inr lvi
                \<and> obs_signal vi e = Inr a \<and> obs_signal lvi e = Inr b
                \<and> np_sub a b = Inr d"
    by blast
qed


subsection \<open>Episode lengths\<close>

text \<open>The episode lengths are never negative: they start at 0, \<open>step_async\<close> adds one and
  \<open>step_wait\<close> multiplies by 0 or 1, and \<open>reset\<close> leaves them alone.\<close>

lemma mul_not_dones_nonneg:
  assumes "mul_not_dones lens ds = Inr lens'" and "\<forall>l\<in>set lens. 0 \<le> l"
  shows "\<forall>l\<in>set lens'. 0 \<le> l"
proof (cases "length ds = length lens")
  case True
  with assms(1) have "lens' = map2 (\<lambda>l d. l * (if d then 0 else 1)) lens ds"
    by (simp add: mul_not_dones_def)
  with assms(2) show ?thesis by (auto dest: set_zip_leftD)
next
  case False
  with assms(1) have "lens' = map (\<lambda>l. l * (if hd ds then 0 else 1)) lens"
    by (auto simp: mul_not_dones_def split: if_split_asm)
  with assms(2) show ?thesis by auto
qed

lemma exec_ep_lens_nonneg:
  assumes "exec c s = Inr s'" and "\<forall>l\<in>set (ep_lens s). 0 \<le> l"
  shows "\<forall>l\<in>set (ep_lens s'). 0 \<le> l"
proof (cases c)
  case (CallReset live observations)
  define s1 where "s1 = process_own_obs observations (s\<lparr>live_calls := live_calls s @ [Reset]\<rparr>)"
  from CallReset assms(1) have r: "reset_state_data live observations None s1 = Inr s'"
    by (auto simp: Lookback_reset_def Let_def bind_err_eq_Inr s1_def split: sum.split_asm)
  have "ep_lens s1 = ep_lens s"
    unfolding s1_def by (subst process_own_obs_frame) simp
  moreover from reset_state_data_Inr [OF r] have "s' = s1\<lparr>lb_dicts := lb_dicts s'\<rparr>" by blast
  then have "ep_lens s' = ep_lens s1" by (rule ssubst) simp
  ultimately show ?thesis using assms(2) by simp
next
  case (CallStepAsync live acts)
  with assms(1) have "Lookback_step_async live acts s = Inr s'" by simp
  from step_async_frame [OF this] have "ep_lens s' = map (\<lambda>l. l + 1) (ep_lens s)" by blast
  with assms(2) show ?thesis by auto
next
  case (CallStepWait live live_result lb_wait)
  obtain observations rewards dones' infos' where
    "live_result = (observations, rewards, dones', infos')"
    by (cases live_result) auto
  with CallStepWait assms(1) obtain out where
    "Lookback_step_wait live (observations, rewards, dones', infos') lb_wait s = Inr (s', out)"
    by (auto split: sum.split_asm)
  from step_wait_Inr [OF this] have "mul_not_dones (ep_lens s) dones' = Inr (ep_lens s')"
    by blast
  from mul_not_dones_nonneg [OF this assms(2)] show ?thesis .
qed

text \<open>
  The bodies of \<open>step_async\<close> and \<open>step_wait\<close> on a pool that has a slot: the episode
  length of every lane grows by one in \<open>step_async\<close>, and \<open>step_wait\<close> sets it to 0 for a
  lane that is done. With \<open>L\<close> the episode length of the lane when the bonus is computed,
  the bonus has one term for each slot at an offset below \<open>L\<close> and no other term; a lane
  that is done (\<open>L = 0\<close>) gets its live reward without a bonus.
\<close>

lemma step_cycle_gating:
  assumes "Lookback_step_async live0 acts s0 = Inr s"
    and "Lookback_step_wait live (observations, rewards, dones', infos') lb_wait s
             = Inr (s', (obs', rewards', dones'', infos''))"
    and "e < num_envs s"
    and "0 \<le> ep_lens s0 ! e"
  shows "ep_lens s = map (\<lambda>l. l + 1) (ep_lens s0)
       \<and> ep_lens s' ! e = (if dones' ! e then 0 else ep_lens s0 ! e + 1)
       \<and> (\<exists>vi ds. agent_get (infos' ! e) (victim_index s) = Inr vi
            \<and> length ds = min (nat (ep_lens s' ! e)) (length (lb_dicts s'))
            \<and> rewards' ! e = rewards ! e + 0.05 * sum_list ds
            \<and> (\<forall>i<length ds. i < nat (ep_lens s' ! e) \<and> (\<exists>lvi.
                  agent_get (info (data (lb_dicts s' ! i)) e) (victim_index s) = Inr lvi \<and>
                  (if ''ff'' \<in> set (transparent_params s)
                   then \<exists>a b d. ff_signal vi e = Inr a \<and> ff_signal lvi e = Inr b
                          \<and> np_sub a b = Inr d \<and> ds ! i = linalg_norm d
                   else ds ! i = 0))))
       \<and> (dones' ! e \<longrightarrow> rewards' ! e = rewards ! e)"
proof -
  from step_async_frame [OF assms(1)]
  have inc: "ep_lens s = map (\<lambda>l. l + 1) (ep_lens s0)" by blast
  from step_wait_lane [OF assms(2,3)] have
    bd: "e < length (ep_lens s)" and
    l: "ep_lens s' ! e = (if dones' ! e then 0 else ep_lens s ! e)"
    by blast+
  from bd inc have "ep_lens s ! e = ep_lens s0 ! e + 1" by simp
  with l have L: "ep_lens s' ! e = (if dones' ! e then 0 else ep_lens s0 ! e + 1)" by simp
  with assms(4) have nn: "0 \<le> ep_lens s' ! e" by simp
  from step_wait_bonus [OF assms(2,3)] obtain vi ds where
    v: "agent_get (infos' ! e) (victim_index s) = Inr vi" and
    len: "length ds = length (py_take (ep_lens s' ! e) (lb_dicts s'))" and
    r: "rewards' ! e = rewards ! e + 0.05 * sum_list ds" and
    all: "\<forall>i<length ds. \<exists>lvi.
                agent_get (info (data (lb_dicts s' ! i)) e) (victim_index s) = Inr lvi \<and>
                (if ''ff'' \<in> set (transparent_params s)
                 then \<exists>a b d. ff_signal vi e = Inr a \<and> ff_signal lvi e = Inr b
                        \<and> np_sub a b = Inr d \<and> ds ! i = linalg_norm d
                 else ds ! i = 0) \<and>
                (''obs'' \<in> set (transparent_params s) \<longrightarrow>
                   (\<exists>a b d. obs_signal vi e = Inr a \<and> obs_signal lvi e = Inr b
                        \<and> np_sub a b = Inr d))"
    by blast
  from len nn have len': "length ds = min (nat (ep_lens s' ! e)) (length (lb_dicts s'))"
    by (simp add: py_take_nonneg min.commute)
  have terms: "\<forall>i<length ds. i < nat (ep_lens s' ! e) \<and> (\<exists>lvi.
                  agent_get (info (data (lb_dicts s' ! i)) e) (victim_index s) = Inr lvi \<and>
                  (if ''ff'' \<in> set (transparent_params s)
                   then \<exists>a b d. ff_signal vi e = Inr a \<and> ff_signal lvi e = Inr b
                          \<and> np_sub a b = Inr d \<and> ds ! i = linalg_norm d
                   else ds ! i = 0))"
  proof (intro allI impI conjI)
    fix i assume i: "i < length ds"
    with len' show "i < nat (ep_lens s' ! e)" by simp
    from all i show "\<exists>lvi.
                  agent_get (info (data (lb_dicts s' ! i)) e) (victim_index s) = Inr lvi \<and>
                  (if ''ff'' \<in> set (transparent_params s)
                   then \<exists>a b d. ff_signal vi e = Inr a \<and> ff_signal lvi e = Inr b
                          \<and> np_sub a b = Inr d \<and> ds ! i = linalg_norm d
                   else ds ! i = 0)"
      by blast
  qed
  have fresh: "dones' ! e \<longrightarrow> rewards' ! e = rewards ! e"
  proof
    assume "dones' ! e"
    with L len' have "ds = []" by simp
    with r show "rewards' ! e = rewards ! e" by simp
  qed
  have ex: "\<exists>vi ds. agent_get (infos' ! e) (victim_index s) = Inr vi
            \<and> length ds = min (nat (ep_lens s' ! e)) (length (lb_dicts s'))
            \<and> rewards' ! e = rewards ! e + 0.05 * sum_list ds
            \<and> (\<forall>i<length ds. i < nat (ep_lens s' ! e) \<and> (\<exists>lvi.
                  agent_get (info (data (lb_dicts s' ! i)) e) (victim_index s) = Inr lvi \<and>
                  (if ''ff'' \<in> set (transparent_params s)
                   then \<exists>a b d. ff_signal vi e = Inr a \<and> ff_signal lvi e = Inr b
                          \<and> np_sub a b = Inr d \<and> ds ! i = linalg_norm d
                   else ds ! i = 0)))"
    apply (rule exI [of _ vi])
    apply (rule exI [of _ ds])
    using v len' r terms apply (intro conjI)
       apply assumption+
    done
  from inc L ex fresh show ?thesis by (intro conjI)
qed






subsection \<open>The end of an episode\<close>

lemma reset_slot_lane:
  assumes "reset_slot live n a0 st0 (Some e) lb = Inr lb'"
  shows "slot_id lb' = slot_id lb
       \<and> calls lb' = calls lb @
            [SetObs (get_obs live) (Some e), SetRadius e (get_radius live e),
             SetState e (get_state live e) (Some (get_full_state live e)) False]
       \<and> e < length a0
       \<and> (\<exists>old. action (data lb) = Some old \<and> e < length old
              \<and> action (data lb') = Some (old[e := a0 ! e]))
       \<and> (case st0 of
             None \<Rightarrow> state (data lb') = None
           | Some st \<Rightarrow> e < length st \<and>
               (\<exists>old. state (data lb) = Some old \<and> e < length old
                  \<and> state (data lb') = Some (old[e := st ! e])))
       \<and> e < length (reward (data lb))
       \<and> reward (data lb') = (reward (data lb))[e := 0]
       \<and> info (data lb') = info (data lb)"
proof (cases st0)
  case None
  with assms show ?thesis
    by (auto simp: reset_slot_def bind_err_eq_Inr nth_err_eq_Inr Let_def add_calls_def set_lane_def
        split: option.split_asm if_split_asm)
next
  case (Some st)
  with assms show ?thesis
    by (auto simp: reset_slot_def bind_err_eq_Inr nth_err_eq_Inr Let_def add_calls_def set_lane_def
        split: option.split_asm if_split_asm)
qed

text \<open>
  The branch of \<open>_reset_state_data\<close> for one lane, in every slot of the pool it is given:
  it sets the simulator state (\<open>set_radius\<close> and \<open>set_state\<close> with the radius, the state
  and the full simulator data of the live environment), the observation of the curried
  policy (\<open>set_obs\<close> with the live one), the cached action and the cached recurrent
  state (to what the policy predicts from the fresh observation, with no state and no
  mask) and the cached reward (to 0). The other lanes keep their entries. The branch
  has no assignment to the cached info of the lane, which the branch for all lanes
  replaces by an empty \<open>defaultdict\<close>, and none to the recurrent state tracked for our
  policy.
\<close>

lemma reset_state_data_lane:
  assumes "reset_state_data live observations (Some e) s = Inr s'"
    and "i < length (lb_dicts s)"
  shows "s' = s\<lparr>lb_dicts := lb_dicts s'\<rparr>
       \<and> self_state s' = self_state s
       \<and> length (lb_dicts s') = length (lb_dicts s)
       \<and> slot_id (lb_dicts s' ! i) = slot_id (lb_dicts s ! i)
       \<and> calls (lb_dicts s' ! i) = calls (lb_dicts s ! i) @
            [SetObs (get_obs live) (Some e), SetRadius e (get_radius live e),
             SetState e (get_state live e) (Some (get_full_state live e)) False]
       \<and> (\<exists>old. action (data (lb_dicts s ! i)) = Some old
              \<and> action (data (lb_dicts s' ! i)) =
                  Some (old[e := fst (predict (self_policy s)
                                       (Some (get_truncated_obs s observations)) None None) ! e]))
       \<and> (case snd (predict (self_policy s) (Some (get_truncated_obs s observations)) None None) of
             None \<Rightarrow> state (data (lb_dicts s' ! i)) = None
           | Some st \<Rightarrow>
               (\<exists>old. state (data (lb_dicts s ! i)) = Some old
                  \<and> state (data (lb_dicts s' ! i)) = Some (old[e := st ! e])))
       \<and> reward (data (lb_dicts s' ! i)) = (reward (data (lb_dicts s ! i)))[e := 0]
       \<and> e < length (reward (data (lb_dicts s ! i)))
       \<and> info (data (lb_dicts s' ! i)) = info (data (lb_dicts s ! i))"
proof -
  let ?p = "predict (self_policy s) (Some (get_truncated_obs s observations)) None None"
  from reset_state_data_Inr [OF assms(1)] have
    f: "s' = s\<lparr>lb_dicts := lb_dicts s'\<rparr>" and
    m: "map_err (reset_slot live (num_envs s) (fst ?p) (snd ?p) (Some e)) (lb_dicts s)
          = Inr (lb_dicts s')"
    by blast+
  from f have st: "self_state s' = self_state s" by (rule ssubst) simp
  note len = map_err_length [OF m]
  note r = reset_slot_lane [OF map_err_nth [OF m assms(2)]]
  from r have c5: "case snd ?p of
             None \<Rightarrow> state (data (lb_dicts s' ! i)) = None
           | Some st \<Rightarrow>
               (\<exists>old. state (data (lb_dicts s ! i)) = Some old
                  \<and> state (data (lb_dicts s' ! i)) = Some (old[e := st ! e]))"
    by (auto split: option.splits)
  from r have c4: "\<exists>old. action (data (lb_dicts s ! i)) = Some old
              \<and> action (data (lb_dicts s' ! i)) = Some (old[e := fst ?p ! e])"
    by blast
  from f st len r c4 c5 show ?thesis by (intro conjI) blast+
qed

text \<open>The recurrent state tracked for our policy is advanced by \<open>_process_own_obs\<close> in every
  \<open>step_wait\<close>: it is what the policy returns for the previous state and the done mask of
  the step, so that a lane's state after its episode ends is the policy's to reset.\<close>

lemma own_state_after_step_wait:
  assumes "Lookback_step_wait live (observations, rewards, dones', infos') lb_wait s = Inr (s', out)"
  shows "self_state s' = snd (predict (self_policy s) (Some (get_truncated_obs s observations))
                                (self_state s) (Some dones'))"
  using step_wait_Inr [OF assms] by blast


end
